theory Spec2Isabelle
  imports Complex_Main "HOL-Library.Word"
begin

section \<open>Artificial life simulator: the simulation engine of als.c\<close>

text \<open>
  The engine of \<^verbatim>\<open>src/als.c\<close>: \<^verbatim>\<open>spawn_life_form\<close>, \<^verbatim>\<open>spawn_food\<close>,
  \<^verbatim>\<open>update_life_form\<close>, \<^verbatim>\<open>handle_interactions\<close>, \<^verbatim>\<open>simulate_step\<close> and
  \<^verbatim>\<open>initialize_simulation\<close>. Rendering and the SDL host loop are left out.

  Modelling conventions.
  \<^item> A C \<^verbatim>\<open>double\<close> is a \<^typ>\<open>real\<close>: rounding, infinities and NaN are not modelled.
    Every property below is about comparisons, clamps and exact constants, not about
    rounding error.
  \<^item> The global array \<^verbatim>\<open>life_forms\<close> with its counter \<^verbatim>\<open>life_form_count\<close> is a list whose
    length is the counter (slots at or above the counter are never read before
    \<^verbatim>\<open>spawn_life_form\<close> has written every field of them); likewise \<^verbatim>\<open>food_sources\<close> and
    \<^verbatim>\<open>food_count\<close>. Writing slot \<^verbatim>\<open>life_form_count\<close> and incrementing is appending.
  \<^item> The C library's \<^verbatim>\<open>rand()\<close> is an arbitrary infinite sequence of naturals, carried in
    the state and consumed from the front; each draw is reduced into \<open>0..RAND_MAX\<close>.
    Theorems quantify over every such sequence. Where C leaves the order of two
    \<^verbatim>\<open>rand()\<close> calls in one argument list open, the model draws left to right.
  \<^item> The result of \<^verbatim>\<open>malloc\<close> in \<^verbatim>\<open>simulate_step\<close> is an input of the model
    (\<open>alloc_ok\<close>).
  \<^item> The struct fields \<^verbatim>\<open>x, y, vx, vy, energy, speed_factor, id, r, g, b\<close> carry the prefix
    \<open>lf_\<close>, those of \<^verbatim>\<open>Food\<close> the prefix \<open>food_\<close>; the flag \<^verbatim>\<open>is_present\<close> (only ever
    0 or 1 in the source) is a \<^typ>\<open>bool\<close>.
\<close>

subsection \<open>Simulation parameters\<close>

definition INITIAL_LIFE_FORMS :: nat where "INITIAL_LIFE_FORMS = 10"
definition INITIAL_FOOD_SOURCES :: nat where "INITIAL_FOOD_SOURCES = 50"
definition MAX_LIFE_FORMS :: nat where "MAX_LIFE_FORMS = 200"
definition MAX_FOOD_SOURCES :: nat where "MAX_FOOD_SOURCES = 100"
definition WINDOW_WIDTH :: real where "WINDOW_WIDTH = 800"
definition WINDOW_HEIGHT :: real where "WINDOW_HEIGHT = 600"
definition LIFE_FORM_RADIUS :: real where "LIFE_FORM_RADIUS = 8"
definition FOOD_RADIUS :: real where "FOOD_RADIUS = 3"
definition MAX_ENERGY :: real where "MAX_ENERGY = 100"
definition REPRODUCTION_THRESHOLD :: real where "REPRODUCTION_THRESHOLD = 80"
definition ENERGY_LOSS_PER_STEP :: real where "ENERGY_LOSS_PER_STEP = 5 / 100"
definition ENERGY_GAIN_FROM_FOOD :: real where "ENERGY_GAIN_FROM_FOOD = 20"
definition MAX_SPEED :: real where "MAX_SPEED = 15 / 10"

lemmas params =
  INITIAL_LIFE_FORMS_def INITIAL_FOOD_SOURCES_def MAX_LIFE_FORMS_def MAX_FOOD_SOURCES_def
  WINDOW_WIDTH_def WINDOW_HEIGHT_def LIFE_FORM_RADIUS_def FOOD_RADIUS_def MAX_ENERGY_def
  REPRODUCTION_THRESHOLD_def ENERGY_LOSS_PER_STEP_def ENERGY_GAIN_FROM_FOOD_def MAX_SPEED_def

subsection \<open>Entities and the world\<close>

record LifeForm =
  lf_x :: real
  lf_y :: real
  lf_vx :: real
  lf_vy :: real
  lf_energy :: real
  lf_speed_factor :: real
  lf_id :: int
  lf_r :: "8 word"
  lf_g :: "8 word"
  lf_b :: "8 word"

record Food =
  food_x :: real
  food_y :: real
  is_present :: bool

type_synonym rand_state = "nat \<Rightarrow> nat"

record world =
  life_forms :: "LifeForm list"
  food_sources :: "Food list"
  rand_src :: rand_state

subsection \<open>The random source\<close>

text \<open>\<^verbatim>\<open>RAND_MAX\<close> is the C library's; the value is glibc's. No property depends on it
  beyond being positive.\<close>

definition RAND_MAX :: nat where "RAND_MAX = 2147483647"

definition rand :: "rand_state \<Rightarrow> nat \<times> rand_state" where
  "rand g = (g 0 mod (RAND_MAX + 1), \<lambda>n. g (Suc n))"

text \<open>The expression \<^verbatim>\<open>(double)rand() / RAND_MAX\<close>.\<close>

definition rand_unit :: "rand_state \<Rightarrow> real \<times> rand_state" where
  "rand_unit g = (real (fst (rand g)) / real RAND_MAX, snd (rand g))"

subsection \<open>Geometry and the C library's atan2\<close>

definition distance_sq :: "real \<Rightarrow> real \<Rightarrow> real \<Rightarrow> real \<Rightarrow> real" where
  "distance_sq x1 y1 x2 y2 = (let dx = x1 - x2; dy = y1 - y2 in dx * dx + dy * dy)"

text \<open>\<^verbatim>\<open>atan2(y, x)\<close> of \<^verbatim>\<open>math.h\<close>, by quadrant; \<^verbatim>\<open>atan2(0, 0)\<close> is 0.\<close>

definition atan2 :: "real \<Rightarrow> real \<Rightarrow> real" where
  "atan2 y x =
     (if 0 < x then arctan (y / x)
      else if x < 0 \<and> 0 \<le> y then arctan (y / x) + pi
      else if x < 0 \<and> y < 0 then arctan (y / x) - pi
      else if 0 < y then pi / 2
      else if y < 0 then - (pi / 2)
      else 0)"

subsection \<open>Spawner\<close>

definition spawn_life_form ::
  "real \<Rightarrow> real \<Rightarrow> real \<Rightarrow> real \<Rightarrow> 8 word \<Rightarrow> 8 word \<Rightarrow> 8 word \<Rightarrow> world \<Rightarrow> world" where
  "spawn_life_form x y energy speed_factor r g b w =
     (if length (life_forms w) < MAX_LIFE_FORMS then
        (let u1 = fst (rand_unit (rand_src w));
             g1 = snd (rand_unit (rand_src w));
             u2 = fst (rand_unit g1);
             g2 = snd (rand_unit g1);
             lf = \<lparr> lf_x = x, lf_y = y,
                    lf_vx = (u1 - 1 / 2) * MAX_SPEED * speed_factor,
                    lf_vy = (u2 - 1 / 2) * MAX_SPEED * speed_factor,
                    lf_energy = energy, lf_speed_factor = speed_factor,
                    lf_id = int (length (life_forms w)),
                    lf_r = r, lf_g = g, lf_b = b \<rparr>
         in w\<lparr> life_forms := life_forms w @ [lf], rand_src := g2 \<rparr>)
      else w)"

definition spawn_food :: "real \<Rightarrow> real \<Rightarrow> world \<Rightarrow> world" where
  "spawn_food x y w =
     (if length (food_sources w) < MAX_FOOD_SOURCES then
        w\<lparr> food_sources := food_sources w @ [\<lparr> food_x = x, food_y = y, is_present = True \<rparr>] \<rparr>
      else w)"

subsection \<open>Per-agent updater\<close>

text \<open>Step 3 of \<^verbatim>\<open>update_life_form\<close>: bounce off the window boundaries, each axis alone.\<close>

definition bounce :: "LifeForm \<Rightarrow> LifeForm" where
  "bounce lf =
     (let lfa =
            (if lf_x lf - LIFE_FORM_RADIUS < 0 then
               lf\<lparr> lf_x := LIFE_FORM_RADIUS, lf_vx := lf_vx lf * (- 1) \<rparr>
             else if lf_x lf + LIFE_FORM_RADIUS > WINDOW_WIDTH then
               lf\<lparr> lf_x := WINDOW_WIDTH - LIFE_FORM_RADIUS, lf_vx := lf_vx lf * (- 1) \<rparr>
             else lf)
      in if lf_y lfa - LIFE_FORM_RADIUS < 0 then
           lfa\<lparr> lf_y := LIFE_FORM_RADIUS, lf_vy := lf_vy lfa * (- 1) \<rparr>
         else if lf_y lfa + LIFE_FORM_RADIUS > WINDOW_HEIGHT then
           lfa\<lparr> lf_y := WINDOW_HEIGHT - LIFE_FORM_RADIUS, lf_vy := lf_vy lfa * (- 1) \<rparr>
         else lfa)"

text \<open>The scan for the nearest present food: the accumulator is
  \<^verbatim>\<open>(nearest_food_dist_sq, nearest_food_idx)\<close>, started at \<open>(-1, -1)\<close>; \<open>i\<close> is the index
  of the head of the remaining list.\<close>

fun nearest_scan :: "real \<Rightarrow> real \<Rightarrow> Food list \<Rightarrow> nat \<Rightarrow> real \<times> int \<Rightarrow> real \<times> int" where
  "nearest_scan px py [] i acc = acc"
| "nearest_scan px py (f # fs) i (nearest_food_dist_sq, nearest_food_idx) =
     (if is_present f then
        (let dist_sq = distance_sq px py (food_x f) (food_y f)
         in if nearest_food_idx = - 1 \<or> dist_sq < nearest_food_dist_sq
            then nearest_scan px py fs (i + 1) (dist_sq, int i)
            else nearest_scan px py fs (i + 1) (nearest_food_dist_sq, nearest_food_idx))
      else nearest_scan px py fs (i + 1) (nearest_food_dist_sq, nearest_food_idx))"

text \<open>Step 4: steer towards the nearest present food, or redraw the velocity with
  probability 1 percent when there is none. \<^verbatim>\<open>current_speed\<close> is computed and never used
  by the source; it is kept here as it is there.\<close>

definition steer :: "LifeForm \<Rightarrow> Food list \<Rightarrow> rand_state \<Rightarrow> LifeForm \<times> rand_state" where
  "steer lf foods g =
     (let nearest_food_idx = snd (nearest_scan (lf_x lf) (lf_y lf) foods 0 (- 1, - 1))
      in if nearest_food_idx \<noteq> - 1 then
           (let f = foods ! nat nearest_food_idx;
                angle = atan2 (food_y f - lf_y lf) (food_x f - lf_x lf);
                current_speed0 = sqrt (lf_vx lf * lf_vx lf + lf_vy lf * lf_vy lf);
                current_speed = (if current_speed0 = 0 then MAX_SPEED * lf_speed_factor lf
                                 else current_speed0)
            in (lf\<lparr> lf_vx := cos angle * MAX_SPEED * lf_speed_factor lf,
                    lf_vy := sin angle * MAX_SPEED * lf_speed_factor lf \<rparr>, g))
         else
           (let u = fst (rand_unit g); g1 = snd (rand_unit g)
            in if u < 1 / 100 then
                 (let u1 = fst (rand_unit g1); g2 = snd (rand_unit g1);
                      u2 = fst (rand_unit g2); g3 = snd (rand_unit g2)
                  in (lf\<lparr> lf_vx := (u1 - 1 / 2) * MAX_SPEED * lf_speed_factor lf,
                          lf_vy := (u2 - 1 / 2) * MAX_SPEED * lf_speed_factor lf \<rparr>, g3))
               else (lf, g1)))"

definition clamp_energy :: "LifeForm \<Rightarrow> LifeForm" where
  "clamp_energy lf =
     (let lfa = (if lf_energy lf > MAX_ENERGY then lf\<lparr> lf_energy := MAX_ENERGY \<rparr> else lf)
      in if lf_energy lfa < 0 then lfa\<lparr> lf_energy := 0 \<rparr> else lfa)"

definition update_life_form :: "LifeForm \<Rightarrow> Food list \<Rightarrow> rand_state \<Rightarrow> LifeForm \<times> rand_state" where
  "update_life_form lf foods g =
     (let lf1 = lf\<lparr> lf_energy := lf_energy lf - ENERGY_LOSS_PER_STEP \<rparr>;
          lf2 = lf1\<lparr> lf_x := lf_x lf1 + lf_vx lf1 \<rparr>;
          lf3 = lf2\<lparr> lf_y := lf_y lf2 + lf_vy lf2 \<rparr>;
          lf4 = bounce lf3;
          st = steer lf4 foods g
      in (clamp_energy (fst st), snd st))"

text \<open>The first loop of \<^verbatim>\<open>simulate_step\<close>: every life form in turn, against the same food
  array, the random source threaded through.\<close>

fun update_all :: "LifeForm list \<Rightarrow> Food list \<Rightarrow> rand_state \<Rightarrow> LifeForm list \<times> rand_state" where
  "update_all [] foods g = ([], g)"
| "update_all (lf # lfs) foods g =
     (let r = update_life_form lf foods g;
          rest = update_all lfs foods (snd r)
      in (fst r # fst rest, snd rest))"

subsection \<open>Interaction resolver\<close>

definition combined_radius_sq :: real where
  "combined_radius_sq = (LIFE_FORM_RADIUS + FOOD_RADIUS) * (LIFE_FORM_RADIUS + FOOD_RADIUS)"

definition in_reach :: "LifeForm \<Rightarrow> Food \<Rightarrow> bool" where
  "in_reach lf f \<longleftrightarrow> distance_sq (lf_x lf) (lf_y lf) (food_x f) (food_y f) < combined_radius_sq"

text \<open>The body of the inner loop of \<^verbatim>\<open>handle_interactions\<close> for life form \<open>i\<close> and
  food \<open>j\<close>.\<close>

definition feed_pair :: "nat \<Rightarrow> nat \<Rightarrow> world \<Rightarrow> world" where
  "feed_pair i j w =
     (if is_present (food_sources w ! j) then
        (if in_reach (life_forms w ! i) (food_sources w ! j) then
           (let lf = life_forms w ! i;
                f = food_sources w ! j;
                w1 = w\<lparr> life_forms :=
                          (life_forms w)[i := lf\<lparr> lf_energy := lf_energy lf + ENERGY_GAIN_FROM_FOOD \<rparr>],
                        food_sources := (food_sources w)[j := f\<lparr> is_present := False \<rparr>] \<rparr>;
                u = fst (rand_unit (rand_src w1)); g1 = snd (rand_unit (rand_src w1))
            in if u < 8 / 10 then
                 (let ux = fst (rand_unit g1); g2 = snd (rand_unit g1);
                      uy = fst (rand_unit g2); g3 = snd (rand_unit g2)
                  in spawn_food (ux * WINDOW_WIDTH) (uy * WINDOW_HEIGHT) (w1\<lparr> rand_src := g3 \<rparr>))
               else w1\<lparr> rand_src := g1 \<rparr>)
         else w)
      else w)"

lemma feed_pair_length_lfs [simp]: "length (life_forms (feed_pair i j w)) = length (life_forms w)"
  by (simp add: feed_pair_def spawn_food_def Let_def)

lemma feed_pair_length_food_ge: "length (food_sources w) \<le> length (food_sources (feed_pair i j w))"
  by (simp add: feed_pair_def spawn_food_def Let_def)

lemma feed_pair_length_food_max:
  "max MAX_FOOD_SOURCES (length (food_sources (feed_pair i j w)))
     = max MAX_FOOD_SOURCES (length (food_sources w))"
  by (simp add: feed_pair_def spawn_food_def Let_def)

text \<open>The inner loop: \<open>j\<close> runs up to \<^verbatim>\<open>food_count\<close>, which the body may have incremented.\<close>

function feed_inner :: "nat \<Rightarrow> nat \<Rightarrow> world \<Rightarrow> world" where
  "feed_inner i j w =
     (if j < length (food_sources w) then feed_inner i (j + 1) (feed_pair i j w) else w)"
  by pat_completeness auto
termination
proof (relation "measure (\<lambda>(i, j, w). max MAX_FOOD_SOURCES (length (food_sources w)) - j)")
  show "wf (measure (\<lambda>(i, j, w). max MAX_FOOD_SOURCES (length (food_sources w)) - j))"
    by simp
next
  fix i j :: nat and w :: world
  assume "j < length (food_sources w)"
  then show "((i, j + 1, feed_pair i j w), (i, j, w))
      \<in> measure (\<lambda>(i, j, w). max MAX_FOOD_SOURCES (length (food_sources w)) - j)"
    by (simp add: feed_pair_length_food_max)
qed

declare feed_inner.simps [simp del]

lemma feed_inner_length_lfs [simp]:
  "length (life_forms (feed_inner i j w)) = length (life_forms w)"
proof (induction i j w rule: feed_inner.induct)
  case (1 i j w)
  then show ?case by (subst feed_inner.simps) simp
qed

text \<open>The outer loop over the life forms.\<close>

function feed_outer :: "nat \<Rightarrow> world \<Rightarrow> world" where
  "feed_outer i w =
     (if i < length (life_forms w) then feed_outer (i + 1) (feed_inner i 0 w) else w)"
  by pat_completeness auto
termination
  by (relation "measure (\<lambda>(i, w). length (life_forms w) - i)") auto

declare feed_outer.simps [simp del]

text \<open>The compaction loop: present entries are moved to the front in order.\<close>

fun compact_food :: "Food list \<Rightarrow> Food list" where
  "compact_food [] = []"
| "compact_food (f # fs) = (if is_present f then f # compact_food fs else compact_food fs)"

definition handle_interactions :: "world \<Rightarrow> world" where
  "handle_interactions w =
     (let w1 = feed_outer 0 w in w1\<lparr> food_sources := compact_food (food_sources w1) \<rparr>)"

subsection \<open>Population turnover and the step\<close>

text \<open>The body of the turnover loop of \<^verbatim>\<open>simulate_step\<close> for index \<open>i\<close>: \<open>w\<close> holds the
  old array (which \<^verbatim>\<open>spawn_life_form\<close> extends), \<open>temp\<close> is \<^verbatim>\<open>temp_life_forms\<close>.\<close>

definition turnover_body :: "nat \<Rightarrow> world \<Rightarrow> LifeForm list \<Rightarrow> world \<times> LifeForm list" where
  "turnover_body i w temp =
     (let lf = life_forms w ! i in
      if lf_energy lf > 0 then
        (if lf_energy lf \<ge> REPRODUCTION_THRESHOLD \<and> length temp + 1 < MAX_LIFE_FORMS then
           (let lf' = lf\<lparr> lf_energy := lf_energy lf / 2 \<rparr>;
                w1 = w\<lparr> life_forms := (life_forms w)[i := lf'] \<rparr>;
                u = fst (rand_unit (rand_src w1)); g1 = snd (rand_unit (rand_src w1));
                nsf0 = lf_speed_factor lf' + (u - 1 / 2) * (4 / 10);
                nsf1 = (if nsf0 < 1 / 2 then 1 / 2 else nsf0);
                new_speed_factor = (if nsf1 > 2 then 2 else nsf1);
                temp' = (if length temp < MAX_LIFE_FORMS then temp @ [lf'] else temp);
                ux = fst (rand_unit g1); g2 = snd (rand_unit g1);
                uy = fst (rand_unit g2); g3 = snd (rand_unit g2)
            in (spawn_life_form (lf_x lf' + (ux - 1 / 2) * 10) (lf_y lf' + (uy - 1 / 2) * 10)
                  (lf_energy lf') new_speed_factor (lf_r lf') (lf_g lf') (lf_b lf')
                  (w1\<lparr> rand_src := g3 \<rparr>),
                temp'))
         else (w, if length temp < MAX_LIFE_FORMS then temp @ [lf] else temp))
      else (w, temp))"

lemma turnover_body_length_max:
  "max MAX_LIFE_FORMS (length (life_forms (fst (turnover_body i w temp))))
     = max MAX_LIFE_FORMS (length (life_forms w))"
  by (simp add: turnover_body_def spawn_life_form_def Let_def)

text \<open>The loop: \<open>i\<close> runs up to \<^verbatim>\<open>life_form_count\<close>, which a spawn in the body increments.\<close>

function turnover_loop :: "nat \<Rightarrow> world \<Rightarrow> LifeForm list \<Rightarrow> world \<times> LifeForm list" where
  "turnover_loop i w temp =
     (if i < length (life_forms w) then
        turnover_loop (i + 1) (fst (turnover_body i w temp)) (snd (turnover_body i w temp))
      else (w, temp))"
  by pat_completeness auto
termination
proof (relation "measure (\<lambda>(i, w, temp). max MAX_LIFE_FORMS (length (life_forms w)) - i)")
  show "wf (measure (\<lambda>(i, w, temp). max MAX_LIFE_FORMS (length (life_forms w)) - i))"
    by simp
next
  fix i :: nat and w :: world and temp :: "LifeForm list"
  assume "i < length (life_forms w)"
  then show "((i + 1, fst (turnover_body i w temp), snd (turnover_body i w temp)), (i, w, temp))
      \<in> measure (\<lambda>(i, w, temp). max MAX_LIFE_FORMS (length (life_forms w)) - i)"
    by (simp add: turnover_body_length_max case_prod_beta)
qed

declare turnover_loop.simps [simp del]

text \<open>The three passes of \<^verbatim>\<open>simulate_step\<close>. The update pass runs the updater over the
  whole array; the turnover pass runs the loop from index 0 with an empty
  \<^verbatim>\<open>temp_life_forms\<close> and then copies that array back, its count becoming
  \<^verbatim>\<open>life_form_count\<close>.\<close>

definition update_pass :: "world \<Rightarrow> world" where
  "update_pass w =
     (let upd = update_all (life_forms w) (food_sources w) (rand_src w)
      in w\<lparr> life_forms := fst upd, rand_src := snd upd \<rparr>)"

definition turnover :: "world \<Rightarrow> world" where
  "turnover w = (let res = turnover_loop 0 w [] in (fst res)\<lparr> life_forms := snd res \<rparr>)"

text \<open>\<^verbatim>\<open>simulate_step\<close>: update pass, interaction pass, then the turnover unless the
  allocation of \<^verbatim>\<open>temp_life_forms\<close> failed, in which case the function returns there.\<close>

definition simulate_step :: "bool \<Rightarrow> world \<Rightarrow> world" where
  "simulate_step alloc_ok w =
     (let w1 = update_pass w;
          w2 = handle_interactions w1
      in if \<not> alloc_ok then w2 else turnover w2)"

subsection \<open>Initialisation\<close>

text \<open>The two loops of \<^verbatim>\<open>initialize_simulation\<close>; the counter is the number of rounds left.\<close>

fun init_life_forms :: "nat \<Rightarrow> world \<Rightarrow> world" where
  "init_life_forms 0 w = w"
| "init_life_forms (Suc n) w =
     (let r = fst (rand (rand_src w)); g1 = snd (rand (rand_src w));
          g = fst (rand g1); g2 = snd (rand g1);
          b = fst (rand g2); g3 = snd (rand g2);
          ux = fst (rand_unit g3); g4 = snd (rand_unit g3);
          uy = fst (rand_unit g4); g5 = snd (rand_unit g4)
      in init_life_forms n
           (spawn_life_form (ux * WINDOW_WIDTH) (uy * WINDOW_HEIGHT) (MAX_ENERGY / 2) 1
              (of_nat (r mod 256)) (of_nat (g mod 256)) (of_nat (b mod 256))
              (w\<lparr> rand_src := g5 \<rparr>)))"

fun init_food :: "nat \<Rightarrow> world \<Rightarrow> world" where
  "init_food 0 w = w"
| "init_food (Suc n) w =
     (let ux = fst (rand_unit (rand_src w)); g1 = snd (rand_unit (rand_src w));
          uy = fst (rand_unit g1); g2 = snd (rand_unit g1)
      in init_food n (spawn_food (ux * WINDOW_WIDTH) (uy * WINDOW_HEIGHT) (w\<lparr> rand_src := g2 \<rparr>)))"

definition initialize_simulation :: "rand_state \<Rightarrow> world" where
  "initialize_simulation g =
     init_food INITIAL_FOOD_SOURCES
       (init_life_forms INITIAL_LIFE_FORMS \<lparr> life_forms = [], food_sources = [], rand_src = g \<rparr>)"

text \<open>The states the program can be in between two ticks.\<close>

inductive reachable :: "world \<Rightarrow> bool" where
  reachable_init: "reachable (initialize_simulation g)"
| reachable_step: "reachable w \<Longrightarrow> reachable (simulate_step alloc_ok w)"

subsection \<open>Vocabulary of the properties\<close>

text \<open>A life form is alive when its energy is positive (the test of the turnover loop);
  \<open>halved\<close> is what reproduction does to the parent, \<open>fed\<close> what a consumed item does to
  the life form, \<open>eaten\<close> what it does to the item.\<close>

definition alive :: "LifeForm \<Rightarrow> bool" where
  "alive lf \<longleftrightarrow> 0 < lf_energy lf"

definition halved :: "LifeForm \<Rightarrow> LifeForm" where
  "halved lf = lf\<lparr> lf_energy := lf_energy lf / 2 \<rparr>"

definition fed :: "LifeForm \<Rightarrow> LifeForm" where
  "fed lf = lf\<lparr> lf_energy := lf_energy lf + ENERGY_GAIN_FROM_FOOD \<rparr>"

definition eaten :: "Food \<Rightarrow> Food" where
  "eaten f = f\<lparr> is_present := False \<rparr>"

text \<open>What the interaction loops may change: energies only grow, positions stay, the
  food array only grows, and a flag is only ever cleared.\<close>

definition feeds_to :: "world \<Rightarrow> world \<Rightarrow> bool" where
  "feeds_to w w' \<longleftrightarrow>
     length (life_forms w') = length (life_forms w) \<and>
     (\<forall>k<length (life_forms w).
        life_forms w' ! k = (life_forms w ! k)\<lparr> lf_energy := lf_energy (life_forms w' ! k) \<rparr> \<and>
        lf_energy (life_forms w ! k) \<le> lf_energy (life_forms w' ! k)) \<and>
     length (food_sources w) \<le> length (food_sources w') \<and>
     (\<forall>j<length (food_sources w).
        food_x (food_sources w' ! j) = food_x (food_sources w ! j) \<and>
        food_y (food_sources w' ! j) = food_y (food_sources w ! j) \<and>
        (is_present (food_sources w' ! j) \<longrightarrow> is_present (food_sources w ! j)))"


text \<open>The test of the inner loop body of \<^verbatim>\<open>handle_interactions\<close>: life form \<open>i\<close> consumes
  item \<open>j\<close> in world \<open>w\<close>.\<close>

definition consumes :: "nat \<Rightarrow> nat \<Rightarrow> world \<Rightarrow> bool" where
  "consumes i j w \<longleftrightarrow>
     is_present (food_sources w ! j) \<and> in_reach (life_forms w ! i) (food_sources w ! j)"

text \<open>The consumption log of the feeding loops: the pairs (life form, item) at which the
  inner loop body takes its consuming branch, in the order of execution. The log is not
  part of the program; the loops below follow \<open>feed_inner\<close> and \<open>feed_outer\<close> step by step
  and record where the test succeeds.\<close>

function feed_inner_log :: "nat \<Rightarrow> nat \<Rightarrow> world \<Rightarrow> (nat \<times> nat) list" where
  "feed_inner_log i j w =
     (if j < length (food_sources w) then
        (if consumes i j w then [(i, j)] else []) @ feed_inner_log i (j + 1) (feed_pair i j w)
      else [])"
  by pat_completeness auto
termination
proof (relation "measure (\<lambda>(i, j, w). max MAX_FOOD_SOURCES (length (food_sources w)) - j)")
  show "wf (measure (\<lambda>(i, j, w). max MAX_FOOD_SOURCES (length (food_sources w)) - j))"
    by simp
next
  fix i j :: nat and w :: world
  assume "j < length (food_sources w)"
  then show "((i, j + 1, feed_pair i j w), (i, j, w))
      \<in> measure (\<lambda>(i, j, w). max MAX_FOOD_SOURCES (length (food_sources w)) - j)"
    by (simp add: feed_pair_length_food_max)
qed

declare feed_inner_log.simps [simp del]

function feed_outer_log :: "nat \<Rightarrow> world \<Rightarrow> (nat \<times> nat) list" where
  "feed_outer_log i w =
     (if i < length (life_forms w) then
        feed_inner_log i 0 w @ feed_outer_log (i + 1) (feed_inner i 0 w)
      else [])"
  by pat_completeness auto
termination
  by (relation "measure (\<lambda>(i, w). length (life_forms w) - i)") auto

declare feed_outer_log.simps [simp del]

text \<open>The number of items the log credits to life form \<open>k\<close>.\<close>

definition portions :: "nat \<Rightarrow> (nat \<times> nat) list \<Rightarrow> nat" where
  "portions k evs = length (filter (\<lambda>e. fst e = k) evs)"


subsection \<open>Concrete inputs\<close>

text \<open>A random source that returns the same number at every call. With \<open>RAND_MAX\<close> every
  \<^verbatim>\<open>(double)rand() / RAND_MAX\<close> is 1: no velocity redraw, no food respawn, every jitter at
  its upper end. With 0 every such draw is 0.\<close>

definition const_rand :: "nat \<Rightarrow> rand_state" where
  "const_rand k = (\<lambda>n. k)"

text \<open>A life form at rest with speed factor 1 and black colour, and a present food item.\<close>

definition life_form_at :: "real \<Rightarrow> real \<Rightarrow> real \<Rightarrow> int \<Rightarrow> LifeForm" where
  "life_form_at x y e n = \<lparr> lf_x = x, lf_y = y, lf_vx = 0, lf_vy = 0, lf_energy = e,
      lf_speed_factor = 1, lf_id = n, lf_r = 0, lf_g = 0, lf_b = 0 \<rparr>"

definition food_at :: "real \<Rightarrow> real \<Rightarrow> Food" where
  "food_at x y = \<lparr> food_x = x, food_y = y, is_present = True \<rparr>"





text \<open>A dying life form and a healthy one, no food.\<close>

definition mixed_world :: world where
  "mixed_world = \<lparr> life_forms = [life_form_at 100 100 (1 / 100) 0, life_form_at 200 200 50 1],
      food_sources = [], rand_src = const_rand RAND_MAX \<rparr>"

text \<open>What \<^verbatim>\<open>initialize_simulation\<close> produces when every draw is 0: life forms and food in
  the corner \<open>(0, 0)\<close>.\<close>

definition corner_life_form :: "LifeForm \<Rightarrow> bool" where
  "corner_life_form lf \<longleftrightarrow>
     lf_x lf = 0 \<and> lf_y lf = 0 \<and> lf_vx lf = - (3 / 4) \<and> lf_vy lf = - (3 / 4) \<and> lf_energy lf = 50"

definition corner_food :: "Food \<Rightarrow> bool" where
  "corner_food f \<longleftrightarrow> food_x f = 0 \<and> food_y f = 0"

text \<open>A single life form with energy 90 and no food.\<close>

definition lone_world :: world where
  "lone_world = \<lparr> life_forms = [life_form_at 100 100 90 0], food_sources = [],
      rand_src = const_rand 0 \<rparr>"

text \<open>Ids 0 and 1 as after initialisation: id 0 at full energy on top of four food items,
  id 1 about to die.\<close>

definition reuse_world :: world where
  "reuse_world = \<lparr> life_forms = [life_form_at 100 100 100 0, life_form_at 100 100 (1 / 100) 1],
      food_sources = [food_at 100 100, food_at 100 100, food_at 100 100, food_at 100 100],
      rand_src = const_rand RAND_MAX \<rparr>"

text \<open>Two life forms on top of one food item.\<close>

definition duo_world :: world where
  "duo_world = \<lparr> life_forms = [life_form_at 100 100 50 0, life_form_at 100 100 50 1],
      food_sources = [food_at 100 100], rand_src = const_rand RAND_MAX \<rparr>"







section \<open>Properties\<close>

subsection \<open>Random draws\<close>

lemma rand_unit_bounds: "0 \<le> fst (rand_unit g) \<and> fst (rand_unit g) \<le> 1"
proof -
  have "g 0 mod (RAND_MAX + 1) \<le> RAND_MAX"
    by (metis Suc_eq_plus1 less_Suc_eq_le mod_less_divisor zero_less_Suc)
  moreover have "0 < RAND_MAX" by (simp add: RAND_MAX_def)
  ultimately show ?thesis by (simp add: rand_unit_def rand_def)
qed

subsection \<open>Per-agent updater\<close>

lemma steer_x [simp]: "lf_x (fst (steer lf foods g)) = lf_x lf"
  and steer_y [simp]: "lf_y (fst (steer lf foods g)) = lf_y lf"
  and steer_energy [simp]: "lf_energy (fst (steer lf foods g)) = lf_energy lf"
  and steer_id [simp]: "lf_id (fst (steer lf foods g)) = lf_id lf"
  and steer_sf [simp]: "lf_speed_factor (fst (steer lf foods g)) = lf_speed_factor lf"
  by (simp_all add: steer_def Let_def)

lemma clamp_energy_fields [simp]:
  "lf_x (clamp_energy lf) = lf_x lf" "lf_y (clamp_energy lf) = lf_y lf"
  "lf_vx (clamp_energy lf) = lf_vx lf" "lf_vy (clamp_energy lf) = lf_vy lf"
  "lf_id (clamp_energy lf) = lf_id lf" "lf_speed_factor (clamp_energy lf) = lf_speed_factor lf"
  by (simp_all add: clamp_energy_def Let_def)


lemma bounce_x_range:
  "LIFE_FORM_RADIUS \<le> lf_x (bounce lf) \<and> lf_x (bounce lf) \<le> WINDOW_WIDTH - LIFE_FORM_RADIUS"
  by (simp add: bounce_def Let_def params)

lemma bounce_y_range:
  "LIFE_FORM_RADIUS \<le> lf_y (bounce lf) \<and> lf_y (bounce lf) \<le> WINDOW_HEIGHT - LIFE_FORM_RADIUS"
  by (simp add: bounce_def Let_def params)

lemma rand_unit_const_max [simp]:
  "rand_unit (const_rand RAND_MAX) = (1, const_rand RAND_MAX)"
  by (simp add: rand_unit_def rand_def const_rand_def RAND_MAX_def)

lemma rand_unit_const_zero [simp]:
  "rand_unit (const_rand 0) = (0, const_rand 0)"
  by (simp add: rand_unit_def rand_def const_rand_def)

lemma nearest_scan_none:
  "snd (nearest_scan px py fs i (d, idx)) = - 1 \<longleftrightarrow> idx = - 1 \<and> (\<forall>f\<in>set fs. \<not> is_present f)"
  by (induction fs arbitrary: i d idx) (auto simp: Let_def)



subsection \<open>Update pass\<close>

lemma update_life_form_id [simp]: "lf_id (fst (update_life_form lf foods g)) = lf_id lf"
  by (simp add: update_life_form_def Let_def bounce_def)


lemma update_all_length [simp]: "length (fst (update_all lfs foods g)) = length lfs"
  by (induction lfs arbitrary: g) (simp_all add: Let_def)

lemma update_all_ids [simp]: "map lf_id (fst (update_all lfs foods g)) = map lf_id lfs"
  by (induction lfs arbitrary: g) (simp_all add: Let_def)

lemma update_all_elem:
  "lf' \<in> set (fst (update_all lfs foods g)) \<Longrightarrow>
     \<exists>lf\<in>set lfs. \<exists>g'. lf' = fst (update_life_form lf foods g')"
  by (induction lfs arbitrary: g) (auto simp: Let_def)

lemma update_pass_simps [simp]:
  "food_sources (update_pass w) = food_sources w"
  "length (life_forms (update_pass w)) = length (life_forms w)"
  "map lf_id (life_forms (update_pass w)) = map lf_id (life_forms w)"
  by (simp_all add: update_pass_def Let_def)


subsection \<open>Interaction pass: shape\<close>

lemma map_update_same: "(map f xs)[i := f (xs ! i)] = map f xs"
  by (metis length_map linorder_not_le list_update_beyond list_update_id nth_map)

lemma feed_pair_ids [simp]: "map lf_id (life_forms (feed_pair i j w)) = map lf_id (life_forms w)"
  by (simp add: feed_pair_def spawn_food_def Let_def map_update map_update_same)

lemma feed_inner_ids [simp]: "map lf_id (life_forms (feed_inner i j w)) = map lf_id (life_forms w)"
proof (induction i j w rule: feed_inner.induct)
  case (1 i j w)
  then show ?case by (subst feed_inner.simps) simp
qed

lemma feed_inner_length_food_max:
  "max MAX_FOOD_SOURCES (length (food_sources (feed_inner i j w)))
     = max MAX_FOOD_SOURCES (length (food_sources w))"
proof (induction i j w rule: feed_inner.induct)
  case (1 i j w)
  then show ?case by (subst feed_inner.simps) (simp add: feed_pair_length_food_max)
qed

lemma feed_outer_length_lfs [simp]:
  "length (life_forms (feed_outer i w)) = length (life_forms w)"
proof (induction i w rule: feed_outer.induct)
  case (1 i w)
  then show ?case by (subst feed_outer.simps) simp
qed

lemma feed_outer_ids [simp]: "map lf_id (life_forms (feed_outer i w)) = map lf_id (life_forms w)"
proof (induction i w rule: feed_outer.induct)
  case (1 i w)
  then show ?case by (subst feed_outer.simps) simp
qed

lemma feed_outer_length_food_max:
  "max MAX_FOOD_SOURCES (length (food_sources (feed_outer i w)))
     = max MAX_FOOD_SOURCES (length (food_sources w))"
proof (induction i w rule: feed_outer.induct)
  case (1 i w)
  then show ?case by (subst feed_outer.simps) (simp add: feed_inner_length_food_max)
qed

lemma compact_food_filter: "compact_food fs = filter is_present fs"
  by (induction fs) simp_all

lemma handle_interactions_lfs [simp]:
  "life_forms (handle_interactions w) = life_forms (feed_outer 0 w)"
  by (simp add: handle_interactions_def Let_def)

lemma handle_interactions_food:
  "food_sources (handle_interactions w) = filter is_present (food_sources (feed_outer 0 w))"
  by (simp add: handle_interactions_def Let_def compact_food_filter)

lemma handle_interactions_food_length:
  "length (food_sources (handle_interactions w)) \<le> max MAX_FOOD_SOURCES (length (food_sources w))"
proof -
  have "length (food_sources (handle_interactions w)) \<le> length (food_sources (feed_outer 0 w))"
    by (simp add: handle_interactions_food)
  also have "\<dots> \<le> max MAX_FOOD_SOURCES (length (food_sources (feed_outer 0 w)))" by simp
  finally show ?thesis by (simp add: feed_outer_length_food_max)
qed

subsection \<open>Turnover: one iteration and the loop invariants\<close>

lemma spawn_life_form_shape:
  "\<exists>extra g'. spawn_life_form x y e sf r g b w = w\<lparr> life_forms := life_forms w @ extra, rand_src := g' \<rparr>
      \<and> length extra \<le> 1
      \<and> (length (life_forms w) < MAX_LIFE_FORMS \<longrightarrow> length extra = 1)
      \<and> (extra \<noteq> [] \<longrightarrow> length (life_forms w) < MAX_LIFE_FORMS)
      \<and> (\<forall>c\<in>set extra. lf_x c = x \<and> lf_y c = y \<and> lf_energy c = e \<and> lf_speed_factor c = sf
            \<and> lf_r c = r \<and> lf_g c = g \<and> lf_b c = b \<and> lf_id c = int (length (life_forms w)))"
proof (cases "length (life_forms w) < MAX_LIFE_FORMS")
  case True
  let ?g1 = "snd (rand_unit (rand_src w))"
  let ?c = "\<lparr> lf_x = x, lf_y = y,
      lf_vx = (fst (rand_unit (rand_src w)) - 1 / 2) * MAX_SPEED * sf,
      lf_vy = (fst (rand_unit ?g1) - 1 / 2) * MAX_SPEED * sf,
      lf_energy = e, lf_speed_factor = sf, lf_id = int (length (life_forms w)),
      lf_r = r, lf_g = g, lf_b = b \<rparr>"
  have "spawn_life_form x y e sf r g b w
      = w\<lparr> life_forms := life_forms w @ [?c], rand_src := snd (rand_unit ?g1) \<rparr>"
    using True by (simp add: spawn_life_form_def Let_def)
  then show ?thesis
    using True by (intro exI [of _ "[?c]"] exI [of _ "snd (rand_unit ?g1)"]) simp
next
  case False
  have "spawn_life_form x y e sf r g b w = w\<lparr> life_forms := life_forms w @ [], rand_src := rand_src w \<rparr>"
    using False by (simp add: spawn_life_form_def)
  then show ?thesis using False by (intro exI [of _ "[]"] exI [of _ "rand_src w"]) simp
qed

lemma turnover_body_cases [consumes 1, case_names dead copy repro]:
  assumes "i < length (life_forms w)"
  obtains
    (dead) "\<not> alive (life_forms w ! i)" "turnover_body i w temp = (w, temp)"
  | (copy) "alive (life_forms w ! i)"
      "\<not> (lf_energy (life_forms w ! i) \<ge> REPRODUCTION_THRESHOLD \<and> length temp + 1 < MAX_LIFE_FORMS)"
      "turnover_body i w temp =
         (w, if length temp < MAX_LIFE_FORMS then temp @ [life_forms w ! i] else temp)"
  | (repro) extra g' where "alive (life_forms w ! i)"
      "lf_energy (life_forms w ! i) \<ge> REPRODUCTION_THRESHOLD" "length temp + 1 < MAX_LIFE_FORMS"
      "turnover_body i w temp =
         (w\<lparr> life_forms := (life_forms w)[i := halved (life_forms w ! i)] @ extra, rand_src := g' \<rparr>,
          temp @ [halved (life_forms w ! i)])"
      "length extra \<le> 1"
      "length (life_forms w) < MAX_LIFE_FORMS \<longrightarrow> length extra = 1"
      "extra \<noteq> [] \<longrightarrow> length (life_forms w) < MAX_LIFE_FORMS"
      "\<forall>c\<in>set extra. lf_energy c = lf_energy (life_forms w ! i) / 2
          \<and> lf_r c = lf_r (life_forms w ! i) \<and> lf_g c = lf_g (life_forms w ! i)
          \<and> lf_b c = lf_b (life_forms w ! i) \<and> lf_id c = int (length (life_forms w))"
proof -
  let ?lf = "life_forms w ! i"
  consider "\<not> alive ?lf"
    | "alive ?lf" "\<not> (lf_energy ?lf \<ge> REPRODUCTION_THRESHOLD \<and> length temp + 1 < MAX_LIFE_FORMS)"
    | "alive ?lf" "lf_energy ?lf \<ge> REPRODUCTION_THRESHOLD" "length temp + 1 < MAX_LIFE_FORMS"
    by blast
  then show thesis
  proof cases
    case 1
    then show thesis by (intro dead) (simp_all add: turnover_body_def alive_def)
  next
    case 2
    then show thesis by (intro copy) (auto simp add: turnover_body_def alive_def Let_def)
  next
    case 3
    let ?w1 = "w\<lparr> life_forms := (life_forms w)[i := halved ?lf] \<rparr>"
    let ?g1 = "snd (rand_unit (rand_src w))"
    let ?g2 = "snd (rand_unit ?g1)"
    let ?g3 = "snd (rand_unit ?g2)"
    let ?nsf0 = "lf_speed_factor ?lf + (fst (rand_unit (rand_src w)) - 1 / 2) * (4 / 10)"
    let ?nsf1 = "if ?nsf0 < 1 / 2 then 1 / 2 else ?nsf0"
    let ?nsf = "if ?nsf1 > 2 then 2 else ?nsf1"
    let ?sp = "spawn_life_form (lf_x ?lf + (fst (rand_unit ?g1) - 1 / 2) * 10)
        (lf_y ?lf + (fst (rand_unit ?g2) - 1 / 2) * 10) (lf_energy ?lf / 2) ?nsf
        (lf_r ?lf) (lf_g ?lf) (lf_b ?lf) (?w1\<lparr> rand_src := ?g3 \<rparr>)"
    have body: "turnover_body i w temp = (?sp, temp @ [halved ?lf])"
      using 3 by (simp add: turnover_body_def alive_def halved_def Let_def)
    obtain extra g' where sp: "?sp = ?w1\<lparr> rand_src := ?g3 \<rparr>
          \<lparr> life_forms := life_forms (?w1\<lparr> rand_src := ?g3 \<rparr>) @ extra, rand_src := g' \<rparr>"
      and ex: "length extra \<le> 1"
        "length (life_forms (?w1\<lparr> rand_src := ?g3 \<rparr>)) < MAX_LIFE_FORMS \<longrightarrow> length extra = 1"
        "extra \<noteq> [] \<longrightarrow> length (life_forms (?w1\<lparr> rand_src := ?g3 \<rparr>)) < MAX_LIFE_FORMS"
        "\<forall>c\<in>set extra. lf_x c = lf_x ?lf + (fst (rand_unit ?g1) - 1 / 2) * 10
            \<and> lf_y c = lf_y ?lf + (fst (rand_unit ?g2) - 1 / 2) * 10
            \<and> lf_energy c = lf_energy ?lf / 2 \<and> lf_speed_factor c = ?nsf
            \<and> lf_r c = lf_r ?lf \<and> lf_g c = lf_g ?lf \<and> lf_b c = lf_b ?lf
            \<and> lf_id c = int (length (life_forms (?w1\<lparr> rand_src := ?g3 \<rparr>)))"
      using spawn_life_form_shape [of "lf_x ?lf + (fst (rand_unit ?g1) - 1 / 2) * 10"
          "lf_y ?lf + (fst (rand_unit ?g2) - 1 / 2) * 10" "lf_energy ?lf / 2" ?nsf
          "lf_r ?lf" "lf_g ?lf" "lf_b ?lf" "?w1\<lparr> rand_src := ?g3 \<rparr>"]
      by blast
    show thesis
    proof (rule repro [where extra = extra and g' = g'])
      show "turnover_body i w temp =
         (w\<lparr> life_forms := (life_forms w)[i := halved ?lf] @ extra, rand_src := g' \<rparr>,
          temp @ [halved ?lf])"
        by (simp only: body sp) simp
    qed (use 3 ex in simp_all)
  qed
qed

lemma turnover_loop_stop: "\<not> i < length (life_forms w) \<Longrightarrow> turnover_loop i w temp = (w, temp)"
  by (subst turnover_loop.simps) simp

lemma turnover_loop_step:
  "i < length (life_forms w) \<Longrightarrow>
     turnover_loop i w temp
       = turnover_loop (i + 1) (fst (turnover_body i w temp)) (snd (turnover_body i w temp))"
  by (subst turnover_loop.simps) simp

lemma turnover_loop_food_sources [simp]:
  "food_sources (fst (turnover_loop i w temp)) = food_sources w"
proof (induction i w temp rule: turnover_loop.induct)
  case (1 i w temp)
  show ?case
  proof (cases "i < length (life_forms w)")
    case True
    then have "food_sources (fst (turnover_body i w temp)) = food_sources w"
      by (cases rule: turnover_body_cases [where temp = temp]) simp_all
    with True "1.IH" show ?thesis by (simp add: turnover_loop_step)
  next
    case False
    then show ?thesis by (simp add: turnover_loop_stop)
  qed
qed

lemma turnover_loop_temp_length:
  "length temp \<le> MAX_LIFE_FORMS \<Longrightarrow> length (snd (turnover_loop i w temp)) \<le> MAX_LIFE_FORMS"
proof (induction i w temp rule: turnover_loop.induct)
  case (1 i w temp)
  show ?case
  proof (cases "i < length (life_forms w)")
    case True
    then have "length (snd (turnover_body i w temp)) \<le> MAX_LIFE_FORMS"
      using "1.prems" by (cases rule: turnover_body_cases [where temp = temp]) auto
    with True "1.IH" show ?thesis by (simp add: turnover_loop_step)
  next
    case False
    then show ?thesis using "1.prems" by (simp add: turnover_loop_stop)
  qed
qed


lemma turnover_loop_no_reproduction:
  assumes "\<forall>lf\<in>set (life_forms w). lf_energy lf < REPRODUCTION_THRESHOLD"
  shows "fst (turnover_loop i w temp) = w"
  using assms
proof (induction i w temp rule: turnover_loop.induct)
  case (1 i w temp)
  show ?case
  proof (cases "i < length (life_forms w)")
    case True
    then have "fst (turnover_body i w temp) = w"
    proof (cases rule: turnover_body_cases [where temp = temp])
      case (repro extra g')
      then show ?thesis using "1.prems" True by (simp add: not_less [symmetric])
    qed simp_all
    with True "1.IH" "1.prems" show ?thesis by (simp add: turnover_loop_step)
  next
    case False
    then show ?thesis by (simp add: turnover_loop_stop)
  qed
qed

lemma turnover_loop_alive:
  assumes "length (life_forms w) \<le> MAX_LIFE_FORMS"
    and "i \<le> length (life_forms w)"
    and "temp = filter alive (take i (life_forms w))"
  shows "snd (turnover_loop i w temp) = filter alive (life_forms (fst (turnover_loop i w temp)))"
  using assms
proof (induction i w temp rule: turnover_loop.induct)
  case (1 i w temp)
  show ?case
  proof (cases "i < length (life_forms w)")
    case True
    let ?lfs = "life_forms w"
    let ?b = "turnover_body i w temp"
    have "length temp \<le> i" using "1.prems"(3) True
      by (metis length_filter_le length_take min.absorb2 less_imp_le_nat)
    then have room: "length temp < MAX_LIFE_FORMS" using True "1.prems"(1) by simp
    have tk: "take (i + 1) ?lfs = take i ?lfs @ [?lfs ! i]"
      using True by (simp add: take_Suc_conv_app_nth)
    from True have
      "length (life_forms (fst ?b)) \<le> MAX_LIFE_FORMS \<and> i + 1 \<le> length (life_forms (fst ?b)) \<and>
       snd ?b = filter alive (take (i + 1) (life_forms (fst ?b)))"
    proof (cases rule: turnover_body_cases [where temp = temp])
      case dead
      then show ?thesis using True "1.prems" tk by simp
    next
      case copy
      then show ?thesis using True "1.prems" tk room by simp
    next
      case (repro extra g')
      have al: "alive (halved (?lfs ! i))" using repro(1) by (simp add: alive_def halved_def)
      have "take (i + 1) (?lfs[i := halved (?lfs ! i)] @ extra) = take i ?lfs @ [halved (?lfs ! i)]"
        using True by (simp add: take_Suc_conv_app_nth)
      moreover have "length (?lfs[i := halved (?lfs ! i)] @ extra) \<le> MAX_LIFE_FORMS"
        using repro(5,7) "1.prems"(1) by (cases extra) auto
      ultimately show ?thesis using repro(4) True "1.prems"(3) al by simp
    qed
    with True "1.IH" show ?thesis by (simp add: turnover_loop_step)
  next
    case False
    then show ?thesis using "1.prems" by (simp add: turnover_loop_stop)
  qed
qed

subsection \<open>Interaction pass: what the loops change\<close>

lemma feed_pair_cases [case_names skip eat]:
  obtains
    (skip) "\<not> (is_present (food_sources w ! j) \<and> in_reach (life_forms w ! i) (food_sources w ! j))"
      "feed_pair i j w = w"
  | (eat) extra g' where "is_present (food_sources w ! j)"
      "in_reach (life_forms w ! i) (food_sources w ! j)"
      "feed_pair i j w =
         w\<lparr> life_forms := (life_forms w)[i := fed (life_forms w ! i)],
            food_sources := (food_sources w)[j := eaten (food_sources w ! j)] @ extra,
            rand_src := g' \<rparr>"
      "length extra \<le> 1"
      "extra \<noteq> [] \<longrightarrow> length (food_sources w) < MAX_FOOD_SOURCES"
      "\<forall>f\<in>set extra. is_present f"
proof (cases "is_present (food_sources w ! j) \<and> in_reach (life_forms w ! i) (food_sources w ! j)")
  case False
  then show thesis by (intro skip) (auto simp: feed_pair_def)
next
  case True
  let ?w1 = "w\<lparr> life_forms := (life_forms w)[i := fed (life_forms w ! i)],
                food_sources := (food_sources w)[j := eaten (food_sources w ! j)] \<rparr>"
  let ?g1 = "snd (rand_unit (rand_src w))"
  let ?g2 = "snd (rand_unit ?g1)"
  let ?g3 = "snd (rand_unit ?g2)"
  let ?nf = "\<lparr> food_x = fst (rand_unit ?g1) * WINDOW_WIDTH,
               food_y = fst (rand_unit ?g2) * WINDOW_HEIGHT, is_present = True \<rparr>"
  show thesis
  proof (cases "fst (rand_unit (rand_src w)) < 8 / 10 \<and> length (food_sources w) < MAX_FOOD_SOURCES")
    case spawn: True
    show thesis
    proof (rule eat [where extra = "[?nf]" and g' = ?g3])
      show "feed_pair i j w =
         w\<lparr> life_forms := (life_forms w)[i := fed (life_forms w ! i)],
            food_sources := (food_sources w)[j := eaten (food_sources w ! j)] @ [?nf],
            rand_src := ?g3 \<rparr>"
        using True spawn by (simp add: feed_pair_def spawn_food_def Let_def fed_def eaten_def)
    qed (use True spawn in simp_all)
  next
    case nospawn: False
    show thesis
    proof (rule eat [where extra = "[]" and g' = "if fst (rand_unit (rand_src w)) < 8 / 10 then ?g3 else ?g1"])
      show "feed_pair i j w =
         w\<lparr> life_forms := (life_forms w)[i := fed (life_forms w ! i)],
            food_sources := (food_sources w)[j := eaten (food_sources w ! j)] @ [],
            rand_src := (if fst (rand_unit (rand_src w)) < 8 / 10 then ?g3 else ?g1) \<rparr>"
        using True nospawn by (simp add: feed_pair_def spawn_food_def Let_def fed_def eaten_def)
    qed (use True in simp_all)
  qed
qed

lemma feeds_to_refl [simp]: "feeds_to w w"
  by (simp add: feeds_to_def)

lemma feeds_to_trans: "feeds_to w w' \<Longrightarrow> feeds_to w' w'' \<Longrightarrow> feeds_to w w''"
  unfolding feeds_to_def
  apply (intro conjI allI impI)
        apply simp
       apply (metis LifeForm.surjective LifeForm.update_convs(5))
      apply (metis order_trans)
     apply simp
    apply (metis less_le_trans)
   apply (metis less_le_trans)
  apply (metis less_le_trans)
  done

lemma nth_update_any: "xs[i := x] ! k = (if i = k \<and> i < length xs then x else xs ! k)"
  by (metis list_update_beyond nth_list_update linorder_not_le)

lemma feed_pair_feeds_to: "feeds_to w (feed_pair i j w)"
proof (cases rule: feed_pair_cases [of w j i])
  case skip
  then show ?thesis by simp
next
  case (eat extra g')
  show ?thesis
    unfolding eat(3) feeds_to_def
    by (auto simp: nth_update_any nth_append fed_def eaten_def ENERGY_GAIN_FROM_FOOD_def)
qed

lemma feed_inner_feeds_to: "feeds_to w (feed_inner i j w)"
proof (induction i j w rule: feed_inner.induct)
  case (1 i j w)
  show ?case
  proof (cases "j < length (food_sources w)")
    case True
    then have "feeds_to (feed_pair i j w) (feed_inner i j w)"
      using "1.IH" by (subst feed_inner.simps) simp
    then show ?thesis using feed_pair_feeds_to feeds_to_trans by blast
  next
    case False
    then show ?thesis by (subst feed_inner.simps) simp
  qed
qed

lemma feed_outer_feeds_to: "feeds_to w (feed_outer i w)"
proof (induction i w rule: feed_outer.induct)
  case (1 i w)
  show ?case
  proof (cases "i < length (life_forms w)")
    case True
    then have "feeds_to (feed_inner i 0 w) (feed_outer i w)"
      using "1.IH" by (subst feed_outer.simps) simp
    then show ?thesis using feed_inner_feeds_to feeds_to_trans by blast
  next
    case False
    then show ?thesis by (subst feed_outer.simps) simp
  qed
qed

subsection \<open>Interaction pass: energy bounds\<close>




lemma feed_inner_no_reach:
  assumes "i < length (life_forms w)"
    and "\<forall>f\<in>set (food_sources w). is_present f \<longrightarrow> \<not> in_reach (life_forms w ! i) f"
  shows "feed_inner i j w = w"
  using assms
proof (induction i j w rule: feed_inner.induct)
  case (1 i j w)
  show ?case
  proof (cases "j < length (food_sources w)")
    case True
    then have "feed_pair i j w = w"
      using "1.prems"(2) by (cases rule: feed_pair_cases [of w j i]) auto
    then show ?thesis using True "1.IH" "1.prems" by (subst feed_inner.simps) simp
  next
    case False
    then show ?thesis by (subst feed_inner.simps) simp
  qed
qed

lemma feed_outer_no_reach:
  assumes "\<forall>lf\<in>set (life_forms w). \<forall>f\<in>set (food_sources w). is_present f \<longrightarrow> \<not> in_reach lf f"
  shows "feed_outer i w = w"
  using assms
proof (induction i w rule: feed_outer.induct)
  case (1 i w)
  show ?case
  proof (cases "i < length (life_forms w)")
    case True
    then have "feed_inner i 0 w = w"
      using "1.prems" by (intro feed_inner_no_reach) auto
    then show ?thesis using True "1.IH" "1.prems" by (subst feed_outer.simps) simp
  next
    case False
    then show ?thesis by (subst feed_outer.simps) simp
  qed
qed



subsection \<open>The step: counts\<close>

lemma turnover_life_forms [simp]: "life_forms (turnover w) = snd (turnover_loop 0 w [])"
  by (simp add: turnover_def Let_def)

lemma turnover_food_sources [simp]: "food_sources (turnover w) = food_sources w"
  by (simp add: turnover_def Let_def)

lemma simulate_step_food_sources:
  "food_sources (simulate_step alloc_ok w) = food_sources (handle_interactions (update_pass w))"
  by (simp add: simulate_step_def Let_def)

lemma simulate_step_food_length:
  "length (food_sources (simulate_step alloc_ok w))
     \<le> max MAX_FOOD_SOURCES (length (food_sources w))"
  using handle_interactions_food_length [of "update_pass w"]
  by (simp add: simulate_step_food_sources)

lemma simulate_step_life_forms_length:
  "length (life_forms (simulate_step alloc_ok w)) \<le> max MAX_LIFE_FORMS (length (life_forms w))"
proof (cases alloc_ok)
  case True
  have "length (snd (turnover_loop 0 (handle_interactions (update_pass w)) [])) \<le> MAX_LIFE_FORMS"
    by (rule turnover_loop_temp_length) simp
  then show ?thesis using True by (simp add: simulate_step_def Let_def)
next
  case False
  then show ?thesis by (simp add: simulate_step_def Let_def)
qed

subsection \<open>Turnover: the old array\<close>

lemma turnover_body_length_mono:
  assumes "i < length (life_forms w)"
  shows "length (life_forms w) \<le> length (life_forms (fst (turnover_body i w temp)))"
  using assms by (cases rule: turnover_body_cases [where temp = temp]) simp_all

lemma turnover_body_other:
  assumes "i < length (life_forms w)" and "k \<noteq> i" and "k < length (life_forms w)"
  shows "life_forms (fst (turnover_body i w temp)) ! k = life_forms w ! k"
  using assms(1)
  by (cases rule: turnover_body_cases [where temp = temp]) (use assms in \<open>simp_all add: nth_append\<close>)

lemma turnover_body_self:
  assumes "i < length (life_forms w)"
  shows "life_forms (fst (turnover_body i w temp)) ! i = life_forms w ! i \<or>
     alive (life_forms w ! i) \<and>
     life_forms (fst (turnover_body i w temp)) ! i = halved (life_forms w ! i)"
  using assms
  by (cases rule: turnover_body_cases [where temp = temp]) (use assms in \<open>simp_all add: nth_append\<close>)

lemma turnover_loop_length_mono:
  "length (life_forms w) \<le> length (life_forms (fst (turnover_loop i w temp)))"
proof (induction i w temp rule: turnover_loop.induct)
  case (1 i w temp)
  show ?case
  proof (cases "i < length (life_forms w)")
    case True
    then show ?thesis
      using "1.IH" turnover_body_length_mono [of i w temp]
      by (simp add: turnover_loop_step)
  next
    case False
    then show ?thesis by (simp add: turnover_loop_stop)
  qed
qed

lemma turnover_loop_prefix:
  "k < i \<Longrightarrow> k < length (life_forms w) \<Longrightarrow>
     life_forms (fst (turnover_loop i w temp)) ! k = life_forms w ! k"
proof (induction i w temp rule: turnover_loop.induct)
  case (1 i w temp)
  show ?case
  proof (cases "i < length (life_forms w)")
    case True
    have "k < length (life_forms (fst (turnover_body i w temp)))"
      using turnover_body_length_mono [OF True, of temp] "1.prems" by simp
    then show ?thesis
      using "1.IH" [OF True] "1.prems" True turnover_body_other [OF True, of k temp]
      by (simp add: turnover_loop_step)
  next
    case False
    then show ?thesis by (simp add: turnover_loop_stop)
  qed
qed

lemma turnover_loop_originals:
  "i \<le> k \<Longrightarrow> k < length (life_forms w) \<Longrightarrow>
     life_forms (fst (turnover_loop i w temp)) ! k = life_forms w ! k \<or>
     alive (life_forms w ! k) \<and>
     life_forms (fst (turnover_loop i w temp)) ! k = halved (life_forms w ! k)"
proof (induction i w temp rule: turnover_loop.induct)
  case (1 i w temp)
  show ?case
  proof (cases "i < length (life_forms w)")
    case True
    let ?b = "fst (turnover_body i w temp)"
    have kb: "k < length (life_forms ?b)"
      using turnover_body_length_mono [OF True, of temp] "1.prems" by simp
    show ?thesis
    proof (cases "k = i")
      case ki: True
      have "life_forms (fst (turnover_loop i w temp)) ! k = life_forms ?b ! k"
        using turnover_loop_prefix [of k "i + 1" ?b "snd (turnover_body i w temp)"] kb ki True
        by (simp add: turnover_loop_step)
      then show ?thesis using turnover_body_self [OF True, of temp] ki by simp
    next
      case False
      then have "life_forms ?b ! k = life_forms w ! k"
        using turnover_body_other [OF True _ "1.prems"(2)] by simp
      then show ?thesis
        using "1.IH" [OF True _ kb] "1.prems" False True by (simp add: turnover_loop_step)
    qed
  next
    case False
    then show ?thesis by (simp add: turnover_loop_stop)
  qed
qed

subsection \<open>Initialisation and reachable states\<close>

lemma spawn_life_form_length_le:
  "length (life_forms w) \<le> MAX_LIFE_FORMS \<Longrightarrow>
     length (life_forms (spawn_life_form x y e sf r g b w)) \<le> MAX_LIFE_FORMS"
  by (simp add: spawn_life_form_def Let_def)

lemma spawn_life_form_food [simp]:
  "food_sources (spawn_life_form x y e sf r g b w) = food_sources w"
  by (simp add: spawn_life_form_def Let_def)

lemma spawn_food_length_le:
  "length (food_sources w) \<le> MAX_FOOD_SOURCES \<Longrightarrow>
     length (food_sources (spawn_food x y w)) \<le> MAX_FOOD_SOURCES"
  by (simp add: spawn_food_def)

lemma spawn_food_life_forms [simp]: "life_forms (spawn_food x y w) = life_forms w"
  by (simp add: spawn_food_def)

lemma init_life_forms_bound:
  "length (life_forms w) \<le> MAX_LIFE_FORMS \<Longrightarrow>
     length (life_forms (init_life_forms n w)) \<le> MAX_LIFE_FORMS"
proof (induction n arbitrary: w)
  case 0
  then show ?case by simp
next
  case (Suc n)
  show ?case
    unfolding init_life_forms.simps Let_def
    by (rule Suc.IH, rule spawn_life_form_length_le) (use Suc.prems in simp)
qed

lemma init_life_forms_food [simp]: "food_sources (init_life_forms n w) = food_sources w"
  by (induction n arbitrary: w) (simp_all add: Let_def)

lemma init_food_bound:
  "length (food_sources w) \<le> MAX_FOOD_SOURCES \<Longrightarrow>
     length (food_sources (init_food n w)) \<le> MAX_FOOD_SOURCES"
proof (induction n arbitrary: w)
  case 0
  then show ?case by simp
next
  case (Suc n)
  show ?case
    unfolding init_food.simps Let_def
    by (rule Suc.IH, rule spawn_food_length_le) (use Suc.prems in simp)
qed

lemma init_food_life_forms [simp]: "life_forms (init_food n w) = life_forms (w)"
  by (induction n arbitrary: w) (simp_all add: Let_def)

lemma initialize_simulation_bounds:
  "length (life_forms (initialize_simulation g)) \<le> MAX_LIFE_FORMS \<and>
   length (food_sources (initialize_simulation g)) \<le> MAX_FOOD_SOURCES"
  by (simp add: initialize_simulation_def init_life_forms_bound init_food_bound)

lemma reachable_bounds:
  "reachable w \<Longrightarrow>
     length (life_forms w) \<le> MAX_LIFE_FORMS \<and> length (food_sources w) \<le> MAX_FOOD_SOURCES"
proof (induction rule: reachable.induct)
  case (reachable_init g)
  show ?case by (rule initialize_simulation_bounds)
next
  case (reachable_step w alloc_ok)
  then show ?case
    using simulate_step_life_forms_length [of alloc_ok w] simulate_step_food_length [of alloc_ok w]
    by (simp add: max_def split: if_splits)
qed

lemma turnover_no_growth:
  assumes "length (life_forms w) \<le> MAX_LIFE_FORMS"
    and "\<forall>lf\<in>set (life_forms w). lf_energy lf < REPRODUCTION_THRESHOLD"
  shows "length (life_forms (turnover w)) \<le> length (life_forms w)"
proof -
  have "snd (turnover_loop 0 w []) = filter alive (life_forms (fst (turnover_loop 0 w [])))"
    using assms(1) by (intro turnover_loop_alive) simp_all
  then show ?thesis
    using turnover_loop_no_reproduction [OF assms(2), of 0 "[]"] by simp
qed

subsection \<open>Evaluation at concrete worlds\<close>

lemmas step_defs = simulate_step_def update_pass_def handle_interactions_def turnover_def
  update_life_form_def bounce_def steer_def clamp_energy_def feed_pair_def in_reach_def
  combined_radius_sq_def distance_sq_def turnover_body_def spawn_life_form_def spawn_food_def
  atan2_def Let_def



lemma mixed_interactions:
  "handle_interactions (update_pass mixed_world) =
     \<lparr> life_forms = [life_form_at 100 100 0 0, life_form_at 200 200 (999 / 20) 1],
       food_sources = [], rand_src = const_rand RAND_MAX \<rparr>"
  by (simp add: mixed_world_def life_form_at_def step_defs params feed_outer.simps feed_inner.simps)

lemma mixed_step:
  "life_forms (simulate_step True mixed_world) = [life_form_at 200 200 (999 / 20) 1]"
  by (simp add: simulate_step_def turnover_def mixed_interactions)
     (simp add: life_form_at_def turnover_body_def Let_def params turnover_loop.simps)

subsection \<open>The initial world with constant draws\<close>

text \<open>The initial world when every draw of the random source is 0: every life form
  starts in the corner \<open>(0, 0)\<close>, moving out of the window, and so does every food item.\<close>

lemma rand_const_zero [simp]: "rand (const_rand 0) = (0, const_rand 0)"
  by (simp add: rand_def const_rand_def)

lemma init_life_forms_corner:
  assumes "rand_src w = const_rand 0" and "\<forall>lf\<in>set (life_forms w). corner_life_form lf"
  shows "rand_src (init_life_forms n w) = const_rand 0 \<and>
         (\<forall>lf\<in>set (life_forms (init_life_forms n w)). corner_life_form lf)"
  using assms
proof (induction n arbitrary: w)
  case 0
  then show ?case by simp
next
  case (Suc n)
  let ?w' = "spawn_life_form 0 0 (MAX_ENERGY / 2) 1 0 0 0 (w\<lparr> rand_src := const_rand 0 \<rparr>)"
  have step: "init_life_forms (Suc n) w = init_life_forms n ?w'"
    using Suc.prems(1) by (simp add: Let_def params)
  have "rand_src ?w' = const_rand 0 \<and> (\<forall>lf\<in>set (life_forms ?w'). corner_life_form lf)"
    using Suc.prems by (simp add: spawn_life_form_def Let_def corner_life_form_def params)
  then show ?case unfolding step using Suc.IH by blast
qed

lemma init_food_corner:
  assumes "rand_src w = const_rand 0" and "\<forall>f\<in>set (food_sources w). corner_food f"
  shows "rand_src (init_food n w) = const_rand 0 \<and>
         (\<forall>f\<in>set (food_sources (init_food n w)). corner_food f)"
  using assms
proof (induction n arbitrary: w)
  case 0
  then show ?case by simp
next
  case (Suc n)
  let ?w' = "spawn_food 0 0 (w\<lparr> rand_src := const_rand 0 \<rparr>)"
  have step: "init_food (Suc n) w = init_food n ?w'"
    using Suc.prems(1) by (simp add: Let_def params)
  have "rand_src ?w' = const_rand 0 \<and> (\<forall>f\<in>set (food_sources ?w'). corner_food f)"
    using Suc.prems by (simp add: spawn_food_def corner_food_def)
  then show ?case unfolding step using Suc.IH by blast
qed

lemma initialize_simulation_corner:
  "(\<forall>lf\<in>set (life_forms (initialize_simulation (const_rand 0))). corner_life_form lf) \<and>
   (\<forall>f\<in>set (food_sources (initialize_simulation (const_rand 0))). corner_food f)"
proof -
  let ?w0 = "\<lparr> life_forms = [], food_sources = [], rand_src = const_rand 0 \<rparr>"
  let ?w1 = "init_life_forms INITIAL_LIFE_FORMS ?w0"
  have 1: "rand_src ?w1 = const_rand 0 \<and> (\<forall>lf\<in>set (life_forms ?w1). corner_life_form lf)"
    by (rule init_life_forms_corner) simp_all
  have 2: "\<forall>f\<in>set (food_sources (init_food INITIAL_FOOD_SOURCES ?w1)). corner_food f"
    using init_food_corner [of ?w1 INITIAL_FOOD_SOURCES] 1 by simp
  show ?thesis using 1 2 by (simp add: initialize_simulation_def)
qed

lemma update_corner_life_form:
  assumes "corner_life_form lf"
  shows "lf_x (fst (update_life_form lf foods g)) = 8 \<and> lf_y (fst (update_life_form lf foods g)) = 8
         \<and> lf_energy (fst (update_life_form lf foods g)) = 999 / 20"
  using assms
  by (simp add: corner_life_form_def update_life_form_def bounce_def clamp_energy_def Let_def params)

lemma corner_out_of_reach:
  "lf_x a = 8 \<Longrightarrow> lf_y a = 8 \<Longrightarrow> corner_food f \<Longrightarrow> \<not> in_reach a f"
  by (simp add: in_reach_def corner_food_def distance_sq_def combined_radius_sq_def Let_def params)

subsection \<open>A lone parent\<close>

lemma update_life_form_energy:
  "lf_energy (fst (update_life_form lf foods g)) =
     (if lf_energy lf - ENERGY_LOSS_PER_STEP > MAX_ENERGY then MAX_ENERGY
      else if lf_energy lf - ENERGY_LOSS_PER_STEP < 0 then 0
      else lf_energy lf - ENERGY_LOSS_PER_STEP)"
  by (simp add: update_life_form_def clamp_energy_def bounce_def Let_def params)

lemma steer_colour [simp]:
  "lf_r (fst (steer lf foods g)) = lf_r lf" "lf_g (fst (steer lf foods g)) = lf_g lf"
  "lf_b (fst (steer lf foods g)) = lf_b lf"
  by (simp_all add: steer_def Let_def)

lemma clamp_energy_colour [simp]:
  "lf_r (clamp_energy lf) = lf_r lf" "lf_g (clamp_energy lf) = lf_g lf"
  "lf_b (clamp_energy lf) = lf_b lf"
  by (simp_all add: clamp_energy_def Let_def)

lemma update_life_form_colour [simp]:
  "lf_r (fst (update_life_form lf foods g)) = lf_r lf"
  "lf_g (fst (update_life_form lf foods g)) = lf_g lf"
  "lf_b (fst (update_life_form lf foods g)) = lf_b lf"
  by (simp_all add: update_life_form_def Let_def bounce_def)

lemma handle_interactions_no_food:
  "food_sources w = [] \<Longrightarrow> handle_interactions w = w"
  by (simp add: handle_interactions_def Let_def feed_outer_no_reach)

lemma turnover_lone_parent:
  assumes "life_forms w = [p]" and "lf_energy p = 1799 / 20"
  shows "\<exists>c. life_forms (turnover w) = [halved p, c] \<and> lf_energy c = lf_energy p / 2 \<and>
           \<bar>lf_x c - lf_x p\<bar> \<le> 5 \<and> \<bar>lf_y c - lf_y p\<bar> \<le> 5 \<and>
           1 / 2 \<le> lf_speed_factor c \<and> lf_speed_factor c \<le> 2 \<and>
           lf_r c = lf_r p \<and> lf_g c = lf_g p \<and> lf_b c = lf_b p \<and> lf_id c = 1"
proof -
  let ?g1 = "snd (rand_unit (rand_src w))"
  let ?g2 = "snd (rand_unit ?g1)"
  have jx: "\<bar>(fst (rand_unit ?g1) - 1 / 2) * 10\<bar> \<le> 5"
    using rand_unit_bounds [of ?g1] by (simp add: abs_le_iff)
  have jy: "\<bar>(fst (rand_unit ?g2) - 1 / 2) * 10\<bar> \<le> 5"
    using rand_unit_bounds [of ?g2] by (simp add: abs_le_iff)
  show ?thesis
    using assms jx jy
    by (simp add: turnover_def turnover_loop.simps turnover_body_def spawn_life_form_def
        Let_def halved_def params)
qed

subsection \<open>Two ticks of the id-reuse world\<close>

lemma simulate_step_alloc_ok:
  "simulate_step True w = turnover (handle_interactions (update_pass w))"
  by (simp add: simulate_step_def Let_def)

text \<open>Without food and with every draw equal to \<open>RAND_MAX\<close> the updater never redraws the
  velocity, so the update pass is a map.\<close>

lemma update_life_form_quiet:
  "update_life_form lf [] (const_rand RAND_MAX) =
     (clamp_energy (bounce (lf\<lparr> lf_energy := lf_energy lf - ENERGY_LOSS_PER_STEP,
                                 lf_x := lf_x lf + lf_vx lf, lf_y := lf_y lf + lf_vy lf \<rparr>)),
      const_rand RAND_MAX)"
  by (simp add: update_life_form_def steer_def Let_def)

lemma update_all_quiet:
  "update_all lfs [] (const_rand RAND_MAX) =
     (map (\<lambda>lf. clamp_energy (bounce (lf\<lparr> lf_energy := lf_energy lf - ENERGY_LOSS_PER_STEP,
                                 lf_x := lf_x lf + lf_vx lf, lf_y := lf_y lf + lf_vy lf \<rparr>))) lfs,
      const_rand RAND_MAX)"
  by (induction lfs) (simp_all add: update_life_form_quiet Let_def)

lemma reuse_first_interactions:
  "handle_interactions (update_pass reuse_world) =
     \<lparr> life_forms =
         [\<lparr> lf_x = 100, lf_y = 100, lf_vx = 3 / 2, lf_vy = 0, lf_energy = 3599 / 20,
            lf_speed_factor = 1, lf_id = 0, lf_r = 0, lf_g = 0, lf_b = 0 \<rparr>,
          \<lparr> lf_x = 100, lf_y = 100, lf_vx = 3 / 2, lf_vy = 0, lf_energy = 0,
            lf_speed_factor = 1, lf_id = 1, lf_r = 0, lf_g = 0, lf_b = 0 \<rparr>],
       food_sources = [], rand_src = const_rand RAND_MAX \<rparr>"
  by (simp add: reuse_world_def life_form_at_def food_at_def step_defs params
      feed_outer.simps feed_inner.simps)

lemma reuse_first_tick:
  "simulate_step True reuse_world =
     \<lparr> life_forms =
         [\<lparr> lf_x = 100, lf_y = 100, lf_vx = 3 / 2, lf_vy = 0, lf_energy = 3599 / 40,
            lf_speed_factor = 1, lf_id = 0, lf_r = 0, lf_g = 0, lf_b = 0 \<rparr>,
          \<lparr> lf_x = 105, lf_y = 105, lf_vx = 9 / 10, lf_vy = 9 / 10, lf_energy = 3599 / 80,
            lf_speed_factor = 6 / 5, lf_id = 2, lf_r = 0, lf_g = 0, lf_b = 0 \<rparr>,
          \<lparr> lf_x = 110, lf_y = 110, lf_vx = 21 / 20, lf_vy = 21 / 20, lf_energy = 3599 / 80,
            lf_speed_factor = 7 / 5, lf_id = 3, lf_r = 0, lf_g = 0, lf_b = 0 \<rparr>],
       food_sources = [], rand_src = const_rand RAND_MAX \<rparr>"
  unfolding simulate_step_alloc_ok reuse_first_interactions
  by (simp add: turnover_def turnover_body_def spawn_life_form_def Let_def params
      turnover_loop.simps)

lemma reuse_second_update:
  "update_pass (simulate_step True reuse_world) =
     \<lparr> life_forms =
         [\<lparr> lf_x = 203 / 2, lf_y = 100, lf_vx = 3 / 2, lf_vy = 0, lf_energy = 3597 / 40,
            lf_speed_factor = 1, lf_id = 0, lf_r = 0, lf_g = 0, lf_b = 0 \<rparr>,
          \<lparr> lf_x = 1059 / 10, lf_y = 1059 / 10, lf_vx = 9 / 10, lf_vy = 9 / 10,
            lf_energy = 719 / 16, lf_speed_factor = 6 / 5, lf_id = 2,
            lf_r = 0, lf_g = 0, lf_b = 0 \<rparr>,
          \<lparr> lf_x = 2221 / 20, lf_y = 2221 / 20, lf_vx = 21 / 20, lf_vy = 21 / 20,
            lf_energy = 719 / 16, lf_speed_factor = 7 / 5, lf_id = 3,
            lf_r = 0, lf_g = 0, lf_b = 0 \<rparr>],
       food_sources = [], rand_src = const_rand RAND_MAX \<rparr>"
  unfolding reuse_first_tick
  by (simp add: update_pass_def update_all_quiet bounce_def clamp_energy_def Let_def params)

subsection \<open>Interaction pass: who consumes an item\<close>

lemma energy_update_position:
  "a = b\<lparr> lf_energy := e \<rparr> \<Longrightarrow> lf_x a = lf_x b \<and> lf_y a = lf_y b"
  by simp

lemma feeds_to_in_reach:
  assumes "feeds_to w w'" and "i < length (life_forms w)" and "j < length (food_sources w)"
  shows "in_reach (life_forms w' ! i) (food_sources w' ! j)
           = in_reach (life_forms w ! i) (food_sources w ! j)"
proof -
  have "life_forms w' ! i = (life_forms w ! i)\<lparr> lf_energy := lf_energy (life_forms w' ! i) \<rparr>"
    using assms(1,2) unfolding feeds_to_def by blast
  then have "lf_x (life_forms w' ! i) = lf_x (life_forms w ! i) \<and>
             lf_y (life_forms w' ! i) = lf_y (life_forms w ! i)"
    by (rule energy_update_position)
  moreover have "food_x (food_sources w' ! j) = food_x (food_sources w ! j) \<and>
                 food_y (food_sources w' ! j) = food_y (food_sources w ! j)"
    using assms(1,3) unfolding feeds_to_def by blast
  ultimately show ?thesis by (simp add: in_reach_def)
qed

lemma feeds_to_absent:
  "feeds_to w w' \<Longrightarrow> j < length (food_sources w) \<Longrightarrow> \<not> is_present (food_sources w ! j) \<Longrightarrow>
     \<not> is_present (food_sources w' ! j)"
  unfolding feeds_to_def by blast

lemma feeds_to_energy:
  "feeds_to w w' \<Longrightarrow> k < length (life_forms w) \<Longrightarrow>
     lf_energy (life_forms w ! k) \<le> lf_energy (life_forms w' ! k)"
  unfolding feeds_to_def by blast

lemma feeds_to_food_length:
  "feeds_to w w' \<Longrightarrow> length (food_sources w) \<le> length (food_sources w')"
  unfolding feeds_to_def by blast

lemma feed_pair_marks:
  assumes "j < length (food_sources w)" and "in_reach (life_forms w ! i) (food_sources w ! j)"
  shows "\<not> is_present (food_sources (feed_pair i j w) ! j)"
proof (cases rule: feed_pair_cases [of w j i])
  case skip
  then show ?thesis using assms by simp
next
  case (eat extra g')
  show ?thesis unfolding eat(3) using assms(1) by (simp add: nth_append eaten_def)
qed

lemma feed_pair_other_food:
  assumes "j < length (food_sources w)" and "j \<noteq> j0"
  shows "food_sources (feed_pair i j0 w) ! j = food_sources w ! j"
proof (cases rule: feed_pair_cases [of w j0 i])
  case skip
  then show ?thesis by simp
next
  case (eat extra g')
  show ?thesis unfolding eat(3) using assms by (simp add: nth_append)
qed

lemma feed_pair_gain:
  assumes "i < length (life_forms w)" and "is_present (food_sources w ! j)"
    and "in_reach (life_forms w ! i) (food_sources w ! j)"
  shows "lf_energy (life_forms (feed_pair i j w) ! i)
           = lf_energy (life_forms w ! i) + ENERGY_GAIN_FROM_FOOD"
proof (cases rule: feed_pair_cases [of w j i])
  case skip
  then show ?thesis using assms by simp
next
  case (eat extra g')
  show ?thesis unfolding eat(3) using assms(1) by (simp add: fed_def)
qed

lemma feed_pair_spares:
  assumes "\<not> in_reach (life_forms w ! i) (food_sources w ! j)"
  shows "feed_pair i j w = w"
  using assms by (cases rule: feed_pair_cases [of w j i]) simp_all

text \<open>An item within reach of life form \<open>i\<close> is absent once the inner loop of \<open>i\<close> has
  passed it, and stays absent.\<close>

lemma feed_inner_marks:
  assumes "j0 \<le> j" and "j < length (food_sources w)" and "i < length (life_forms w)"
    and "in_reach (life_forms w ! i) (food_sources w ! j)"
  shows "\<not> is_present (food_sources (feed_inner i j0 w) ! j)"
  using assms
proof (induction i j0 w rule: feed_inner.induct)
  case (1 i j0 w)
  let ?w' = "feed_pair i j0 w"
  have lt: "j0 < length (food_sources w)" using "1.prems" by simp
  have step: "feed_inner i j0 w = feed_inner i (j0 + 1) ?w'"
    using lt by (subst feed_inner.simps) simp
  have ft: "feeds_to w ?w'" by (rule feed_pair_feeds_to)
  have jl: "j < length (food_sources ?w')"
    using feeds_to_food_length [OF ft] "1.prems"(2) by simp
  show ?case
  proof (cases "j0 = j")
    case True
    have "\<not> is_present (food_sources ?w' ! j)"
      using feed_pair_marks [of j w i] "1.prems" True by simp
    then show ?thesis
      unfolding step using feeds_to_absent [OF feed_inner_feeds_to jl] by blast
  next
    case False
    have "in_reach (life_forms ?w' ! i) (food_sources ?w' ! j)"
      using feeds_to_in_reach [OF ft "1.prems"(3,2)] "1.prems"(4) by simp
    then show ?thesis
      unfolding step using "1.IH" [OF lt _ jl] "1.prems" False by simp
  qed
qed

lemma feed_outer_marks:
  assumes "i0 \<le> i" and "i < length (life_forms w)" and "j < length (food_sources w)"
    and "in_reach (life_forms w ! i) (food_sources w ! j)"
  shows "\<not> is_present (food_sources (feed_outer i0 w) ! j)"
  using assms
proof (induction i0 w rule: feed_outer.induct)
  case (1 i0 w)
  let ?w' = "feed_inner i0 0 w"
  have lt: "i0 < length (life_forms w)" using "1.prems" by simp
  have step: "feed_outer i0 w = feed_outer (i0 + 1) ?w'"
    using lt by (subst feed_outer.simps) simp
  have ft: "feeds_to w ?w'" by (rule feed_inner_feeds_to)
  have jl: "j < length (food_sources ?w')"
    using feeds_to_food_length [OF ft] "1.prems"(3) by simp
  show ?case
  proof (cases "i0 = i")
    case True
    have "\<not> is_present (food_sources ?w' ! j)"
      using feed_inner_marks [of 0 j w i] "1.prems" True by simp
    then show ?thesis
      unfolding step using feeds_to_absent [OF feed_outer_feeds_to jl] by blast
  next
    case False
    have "in_reach (life_forms ?w' ! i) (food_sources ?w' ! j)"
      using feeds_to_in_reach [OF ft "1.prems"(2,3)] "1.prems"(4) by simp
    then show ?thesis
      unfolding step using "1.IH" [OF lt _ _ jl] "1.prems" False by simp
  qed
qed

text \<open>A life form that is not within reach of an item leaves it present.\<close>

lemma feed_inner_spares:
  assumes "j < length (food_sources w)" and "i < length (life_forms w)"
    and "is_present (food_sources w ! j)"
    and "\<not> in_reach (life_forms w ! i) (food_sources w ! j)"
  shows "is_present (food_sources (feed_inner i j0 w) ! j)"
  using assms
proof (induction i j0 w rule: feed_inner.induct)
  case (1 i j0 w)
  show ?case
  proof (cases "j0 < length (food_sources w)")
    case True
    let ?w' = "feed_pair i j0 w"
    have step: "feed_inner i j0 w = feed_inner i (j0 + 1) ?w'"
      using True by (subst feed_inner.simps) simp
    have ft: "feeds_to w ?w'" by (rule feed_pair_feeds_to)
    have jl: "j < length (food_sources ?w')"
      using feeds_to_food_length [OF ft] "1.prems"(1) by simp
    have same: "food_sources ?w' ! j = food_sources w ! j"
    proof (cases "j0 = j")
      case True
      then show ?thesis using feed_pair_spares [of w i j] "1.prems"(4) by simp
    next
      case False
      then show ?thesis using feed_pair_other_food [OF "1.prems"(1)] by simp
    qed
    have "\<not> in_reach (life_forms ?w' ! i) (food_sources ?w' ! j)"
      using feeds_to_in_reach [OF ft "1.prems"(2,1)] "1.prems"(4) by simp
    then show ?thesis
      unfolding step using "1.IH" [OF True jl] "1.prems" same by simp
  next
    case False
    then show ?thesis using "1.prems" by (subst feed_inner.simps) simp
  qed
qed

text \<open>A life form within reach of a present item gains at least one portion in its own
  inner loop.\<close>

lemma feed_inner_gain:
  assumes "j0 \<le> j" and "j < length (food_sources w)" and "i < length (life_forms w)"
    and "is_present (food_sources w ! j)"
    and "in_reach (life_forms w ! i) (food_sources w ! j)"
  shows "lf_energy (life_forms w ! i) + ENERGY_GAIN_FROM_FOOD
           \<le> lf_energy (life_forms (feed_inner i j0 w) ! i)"
  using assms
proof (induction i j0 w rule: feed_inner.induct)
  case (1 i j0 w)
  let ?w' = "feed_pair i j0 w"
  have lt: "j0 < length (food_sources w)" using "1.prems" by simp
  have step: "feed_inner i j0 w = feed_inner i (j0 + 1) ?w'"
    using lt by (subst feed_inner.simps) simp
  have ft: "feeds_to w ?w'" by (rule feed_pair_feeds_to)
  have jl: "j < length (food_sources ?w')"
    using feeds_to_food_length [OF ft] "1.prems"(2) by simp
  have il: "i < length (life_forms ?w')" using "1.prems"(3) by simp
  show ?case
  proof (cases "j0 = j")
    case True
    have "lf_energy (life_forms ?w' ! i) = lf_energy (life_forms w ! i) + ENERGY_GAIN_FROM_FOOD"
      using feed_pair_gain [of i w j] "1.prems" True by simp
    then show ?thesis
      unfolding step using feeds_to_energy [OF feed_inner_feeds_to il, of i "j0 + 1"] by simp
  next
    case False
    have "in_reach (life_forms ?w' ! i) (food_sources ?w' ! j)"
      using feeds_to_in_reach [OF ft "1.prems"(3,2)] "1.prems"(5) by simp
    moreover have "is_present (food_sources ?w' ! j)"
      using feed_pair_other_food [OF "1.prems"(2), of j0 i] False "1.prems"(4) by simp
    ultimately have "lf_energy (life_forms ?w' ! i) + ENERGY_GAIN_FROM_FOOD
        \<le> lf_energy (life_forms (feed_inner i (j0 + 1) ?w') ! i)"
      using "1.IH" [OF lt _ jl il] "1.prems"(1) False by simp
    then show ?thesis
      unfolding step using feeds_to_energy [OF ft "1.prems"(3)] by simp
  qed
qed

lemma feed_outer_gain:
  assumes "i0 \<le> i" and "i < length (life_forms w)" and "j < length (food_sources w)"
    and "is_present (food_sources w ! j)"
    and "in_reach (life_forms w ! i) (food_sources w ! j)"
    and "\<forall>i'. i0 \<le> i' \<and> i' < i \<longrightarrow> \<not> in_reach (life_forms w ! i') (food_sources w ! j)"
  shows "lf_energy (life_forms w ! i) + ENERGY_GAIN_FROM_FOOD
           \<le> lf_energy (life_forms (feed_outer i0 w) ! i)"
  using assms
proof (induction i0 w rule: feed_outer.induct)
  case (1 i0 w)
  let ?w' = "feed_inner i0 0 w"
  have lt: "i0 < length (life_forms w)" using "1.prems" by simp
  have step: "feed_outer i0 w = feed_outer (i0 + 1) ?w'"
    using lt by (subst feed_outer.simps) simp
  have ft: "feeds_to w ?w'" by (rule feed_inner_feeds_to)
  have jl: "j < length (food_sources ?w')"
    using feeds_to_food_length [OF ft] "1.prems"(3) by simp
  have il: "i < length (life_forms ?w')" using "1.prems"(2) by simp
  show ?case
  proof (cases "i0 = i")
    case True
    have "lf_energy (life_forms w ! i) + ENERGY_GAIN_FROM_FOOD \<le> lf_energy (life_forms ?w' ! i)"
      using feed_inner_gain [of 0 j w i] "1.prems" True by simp
    then show ?thesis
      unfolding step using feeds_to_energy [OF feed_outer_feeds_to il, of "i0 + 1"] by simp
  next
    case False
    have "\<not> in_reach (life_forms w ! i0) (food_sources w ! j)"
      using "1.prems"(1,6) False by simp
    then have pres: "is_present (food_sources ?w' ! j)"
      using feed_inner_spares [OF "1.prems"(3) lt "1.prems"(4)] by simp
    have reach: "in_reach (life_forms ?w' ! i) (food_sources ?w' ! j)"
      using feeds_to_in_reach [OF ft "1.prems"(2,3)] "1.prems"(5) by simp
    have others: "\<forall>i'. i0 + 1 \<le> i' \<and> i' < i \<longrightarrow>
        \<not> in_reach (life_forms ?w' ! i') (food_sources ?w' ! j)"
    proof (intro allI impI)
      fix i' assume h: "i0 + 1 \<le> i' \<and> i' < i"
      then have "i' < length (life_forms w)" using "1.prems"(2) by simp
      then show "\<not> in_reach (life_forms ?w' ! i') (food_sources ?w' ! j)"
        using feeds_to_in_reach [OF ft _ "1.prems"(3), of i'] "1.prems"(6) h by simp
    qed
    have "lf_energy (life_forms ?w' ! i) + ENERGY_GAIN_FROM_FOOD
        \<le> lf_energy (life_forms (feed_outer (i0 + 1) ?w') ! i)"
      using "1.IH" [OF lt _ il jl pres reach others] "1.prems"(1) False by simp
    then show ?thesis
      unfolding step using feeds_to_energy [OF ft "1.prems"(2)] by simp
  qed
qed

lemma feed_pair_portions:
  "\<exists>n::nat. lf_energy (life_forms (feed_pair i j w) ! k)
       = lf_energy (life_forms w ! k) + ENERGY_GAIN_FROM_FOOD * real n"
proof (cases rule: feed_pair_cases [of w j i])
  case skip
  then show ?thesis by (intro exI [of _ 0]) simp
next
  case (eat extra g')
  show ?thesis
  proof (cases "i = k \<and> i < length (life_forms w)")
    case True
    then show ?thesis unfolding eat(3) by (intro exI [of _ 1]) (simp add: fed_def)
  next
    case False
    then show ?thesis unfolding eat(3) by (intro exI [of _ 0]) (auto simp: nth_update_any)
  qed
qed

lemma portions_trans:
  assumes "\<exists>n::nat. (b::real) = a + ENERGY_GAIN_FROM_FOOD * real n"
    and "\<exists>n::nat. c = b + ENERGY_GAIN_FROM_FOOD * real n"
  shows "\<exists>n::nat. c = a + ENERGY_GAIN_FROM_FOOD * real n"
proof -
  from assms obtain n m :: nat where "b = a + ENERGY_GAIN_FROM_FOOD * real n"
    and "c = b + ENERGY_GAIN_FROM_FOOD * real m" by blast
  then have "c = a + ENERGY_GAIN_FROM_FOOD * real (n + m)" by (simp add: algebra_simps)
  then show ?thesis by blast
qed

lemma feed_inner_portions:
  "\<exists>n::nat. lf_energy (life_forms (feed_inner i j w) ! k)
       = lf_energy (life_forms w ! k) + ENERGY_GAIN_FROM_FOOD * real n"
proof (induction i j w rule: feed_inner.induct)
  case (1 i j w)
  show ?case
  proof (cases "j < length (food_sources w)")
    case True
    have step: "feed_inner i j w = feed_inner i (j + 1) (feed_pair i j w)"
      using True by (subst feed_inner.simps) simp
    show ?thesis
      unfolding step by (rule portions_trans [OF feed_pair_portions "1.IH" [OF True]])
  next
    case False
    then have "feed_inner i j w = w" by (subst feed_inner.simps) simp
    then show ?thesis by (intro exI [of _ 0]) simp
  qed
qed

lemma feed_outer_portions:
  "\<exists>n::nat. lf_energy (life_forms (feed_outer i w) ! k)
       = lf_energy (life_forms w ! k) + ENERGY_GAIN_FROM_FOOD * real n"
proof (induction i w rule: feed_outer.induct)
  case (1 i w)
  show ?case
  proof (cases "i < length (life_forms w)")
    case True
    have step: "feed_outer i w = feed_outer (i + 1) (feed_inner i 0 w)"
      using True by (subst feed_outer.simps) simp
    show ?thesis
      unfolding step by (rule portions_trans [OF feed_inner_portions "1.IH" [OF True]])
  next
    case False
    then have "feed_outer i w = w" by (subst feed_outer.simps) simp
    then show ?thesis by (intro exI [of _ 0]) simp
  qed
qed

subsection \<open>Two life forms on one item\<close>

lemma duo_update:
  "update_pass duo_world =
     \<lparr> life_forms =
         [\<lparr> lf_x = 100, lf_y = 100, lf_vx = 3 / 2, lf_vy = 0, lf_energy = 999 / 20,
            lf_speed_factor = 1, lf_id = 0, lf_r = 0, lf_g = 0, lf_b = 0 \<rparr>,
          \<lparr> lf_x = 100, lf_y = 100, lf_vx = 3 / 2, lf_vy = 0, lf_energy = 999 / 20,
            lf_speed_factor = 1, lf_id = 1, lf_r = 0, lf_g = 0, lf_b = 0 \<rparr>],
       food_sources = [food_at 100 100], rand_src = const_rand RAND_MAX \<rparr>"
  by (simp add: duo_world_def life_form_at_def food_at_def update_pass_def update_life_form_def
      bounce_def steer_def clamp_energy_def distance_sq_def atan2_def Let_def params)

lemma duo_interactions:
  "handle_interactions (update_pass duo_world) =
     \<lparr> life_forms =
         [\<lparr> lf_x = 100, lf_y = 100, lf_vx = 3 / 2, lf_vy = 0, lf_energy = 1399 / 20,
            lf_speed_factor = 1, lf_id = 0, lf_r = 0, lf_g = 0, lf_b = 0 \<rparr>,
          \<lparr> lf_x = 100, lf_y = 100, lf_vx = 3 / 2, lf_vy = 0, lf_energy = 999 / 20,
            lf_speed_factor = 1, lf_id = 1, lf_r = 0, lf_g = 0, lf_b = 0 \<rparr>],
       food_sources = [], rand_src = const_rand RAND_MAX \<rparr>"
  unfolding duo_update
  by (simp add: food_at_def handle_interactions_def feed_pair_def in_reach_def
      combined_radius_sq_def distance_sq_def spawn_food_def Let_def params
      feed_outer.simps feed_inner.simps)

lemma duo_step:
  "simulate_step True duo_world = handle_interactions (update_pass duo_world)"
  unfolding simulate_step_alloc_ok duo_interactions
  by (simp add: turnover_def turnover_body_def Let_def params turnover_loop.simps)

subsection \<open>Turnover: reaching the offspring\<close>





subsection \<open>The crowded world\<close>


lemma steer_food_any_rand:
  "\<exists>f\<in>set foods. is_present f \<Longrightarrow> fst (steer lf foods g) = fst (steer lf foods g')"
  by (simp add: steer_def Let_def nearest_scan_none)












subsection \<open>Interaction pass: the consumption log\<close>

lemma portions_simps [simp]:
  "portions k [] = 0"
  "portions k (e # evs) = (if fst e = k then 1 else 0) + portions k evs"
  "portions k (evs @ evs') = portions k evs + portions k evs'"
  by (simp_all add: portions_def)

lemma feed_inner_log_step:
  "j < length (food_sources w) \<Longrightarrow>
     feed_inner_log i j w
       = (if consumes i j w then [(i, j)] else []) @ feed_inner_log i (j + 1) (feed_pair i j w)"
  by (subst feed_inner_log.simps) simp

lemma feed_inner_log_stop: "\<not> j < length (food_sources w) \<Longrightarrow> feed_inner_log i j w = []"
  by (subst feed_inner_log.simps) simp

lemma feed_inner_step:
  "j < length (food_sources w) \<Longrightarrow> feed_inner i j w = feed_inner i (j + 1) (feed_pair i j w)"
  by (subst feed_inner.simps) simp

lemma feed_inner_stop: "\<not> j < length (food_sources w) \<Longrightarrow> feed_inner i j w = w"
  by (subst feed_inner.simps) simp

lemma feed_outer_log_step:
  "i < length (life_forms w) \<Longrightarrow>
     feed_outer_log i w = feed_inner_log i 0 w @ feed_outer_log (i + 1) (feed_inner i 0 w)"
  by (subst feed_outer_log.simps) simp

lemma feed_outer_log_stop: "\<not> i < length (life_forms w) \<Longrightarrow> feed_outer_log i w = []"
  by (subst feed_outer_log.simps) simp

lemma feed_outer_step:
  "i < length (life_forms w) \<Longrightarrow> feed_outer i w = feed_outer (i + 1) (feed_inner i 0 w)"
  by (subst feed_outer.simps) simp

lemma feed_outer_stop: "\<not> i < length (life_forms w) \<Longrightarrow> feed_outer i w = w"
  by (subst feed_outer.simps) simp

lemma feeds_to_agent_reach:
  assumes "feeds_to w w'" and "k < length (life_forms w)"
  shows "in_reach (life_forms w' ! k) f = in_reach (life_forms w ! k) f"
proof -
  have "life_forms w' ! k = (life_forms w ! k)\<lparr> lf_energy := lf_energy (life_forms w' ! k) \<rparr>"
    using assms unfolding feeds_to_def by blast
  then have "lf_x (life_forms w' ! k) = lf_x (life_forms w ! k) \<and>
             lf_y (life_forms w' ! k) = lf_y (life_forms w ! k)"
    by (rule energy_update_position)
  then show ?thesis by (simp add: in_reach_def)
qed

lemma feeds_to_item_reach:
  assumes "feeds_to w w'" and "j < length (food_sources w)"
  shows "in_reach a (food_sources w' ! j) = in_reach a (food_sources w ! j)"
proof -
  have "food_x (food_sources w' ! j) = food_x (food_sources w ! j) \<and>
        food_y (food_sources w' ! j) = food_y (food_sources w ! j)"
    using assms unfolding feeds_to_def by blast
  then show ?thesis by (simp add: in_reach_def)
qed

lemma feeds_to_present:
  "feeds_to w w' \<Longrightarrow> j < length (food_sources w) \<Longrightarrow> is_present (food_sources w' ! j) \<Longrightarrow>
     is_present (food_sources w ! j)"
  unfolding feeds_to_def by blast

text \<open>The energy a pair adds: one portion to the consuming life form, nothing otherwise.\<close>

lemma feed_pair_energy_exact:
  assumes "k < length (life_forms w)"
  shows "lf_energy (life_forms (feed_pair i j w) ! k)
           = lf_energy (life_forms w ! k)
             + ENERGY_GAIN_FROM_FOOD * real (portions k (if consumes i j w then [(i, j)] else []))"
proof (cases rule: feed_pair_cases [of w j i])
  case skip
  then have "\<not> consumes i j w" by (simp add: consumes_def)
  then show ?thesis using skip(2) by simp
next
  case (eat extra g')
  have "consumes i j w" using eat(1,2) by (simp add: consumes_def)
  then show ?thesis
    unfolding eat(3) using assms by (simp add: nth_update_any fed_def)
qed

lemma feed_inner_energy_exact:
  assumes "k < length (life_forms w)"
  shows "lf_energy (life_forms (feed_inner i j w) ! k)
           = lf_energy (life_forms w ! k)
             + ENERGY_GAIN_FROM_FOOD * real (portions k (feed_inner_log i j w))"
  using assms
proof (induction i j w rule: feed_inner.induct)
  case (1 i j w)
  show ?case
  proof (cases "j < length (food_sources w)")
    case True
    have "lf_energy (life_forms (feed_inner i (j + 1) (feed_pair i j w)) ! k)
        = lf_energy (life_forms (feed_pair i j w) ! k)
          + ENERGY_GAIN_FROM_FOOD * real (portions k (feed_inner_log i (j + 1) (feed_pair i j w)))"
      using "1.IH" [OF True] "1.prems" by simp
    then show ?thesis
      using feed_pair_energy_exact [OF "1.prems", of i j]
      by (simp add: feed_inner_step [OF True] feed_inner_log_step [OF True] algebra_simps)
  next
    case False
    then show ?thesis by (simp add: feed_inner_stop feed_inner_log_stop)
  qed
qed

lemma feed_outer_energy_exact:
  assumes "k < length (life_forms w)"
  shows "lf_energy (life_forms (feed_outer i w) ! k)
           = lf_energy (life_forms w ! k)
             + ENERGY_GAIN_FROM_FOOD * real (portions k (feed_outer_log i w))"
  using assms
proof (induction i w rule: feed_outer.induct)
  case (1 i w)
  show ?case
  proof (cases "i < length (life_forms w)")
    case True
    have "lf_energy (life_forms (feed_outer (i + 1) (feed_inner i 0 w)) ! k)
        = lf_energy (life_forms (feed_inner i 0 w) ! k)
          + ENERGY_GAIN_FROM_FOOD * real (portions k (feed_outer_log (i + 1) (feed_inner i 0 w)))"
      using "1.IH" [OF True] "1.prems" by simp
    then show ?thesis
      using feed_inner_energy_exact [OF "1.prems", of i 0]
      by (simp add: feed_outer_step [OF True] feed_outer_log_step [OF True] algebra_simps)
  next
    case False
    then show ?thesis by (simp add: feed_outer_stop feed_outer_log_stop)
  qed
qed

text \<open>Every entry of the log of the inner loop of life form \<open>i\<close> is an item that was
  available, is within reach of \<open>i\<close> and is absent when the loop ends.\<close>

lemma feed_inner_log_events:
  assumes "i < length (life_forms w)" and "e \<in> set (feed_inner_log i j0 w)"
  shows "fst e = i \<and> j0 \<le> snd e \<and>
         snd e < length (food_sources (feed_inner i j0 w)) \<and>
         \<not> is_present (food_sources (feed_inner i j0 w) ! snd e) \<and>
         in_reach (life_forms w ! i) (food_sources (feed_inner i j0 w) ! snd e) \<and>
         (snd e < length (food_sources w) \<longrightarrow> is_present (food_sources w ! snd e))"
  using assms
proof (induction i j0 w rule: feed_inner.induct)
  case (1 i j0 w)
  show ?case
  proof (cases "j0 < length (food_sources w)")
    case True
    let ?w' = "feed_pair i j0 w"
    let ?F = "feed_inner i (j0 + 1) ?w'"
    have F: "feed_inner i j0 w = ?F" by (rule feed_inner_step [OF True])
    have ft: "feeds_to w ?w'" by (rule feed_pair_feeds_to)
    have ftF: "feeds_to ?w' ?F" by (rule feed_inner_feeds_to)
    have ftwF: "feeds_to w ?F" using ft ftF by (rule feeds_to_trans)
    have il: "i < length (life_forms ?w')" using "1.prems"(1) by simp
    from "1.prems"(2) consider (now) "consumes i j0 w" "e = (i, j0)"
      | (later) "e \<in> set (feed_inner_log i (j0 + 1) ?w')"
      by (auto simp: feed_inner_log_step [OF True] split: if_splits)
    then show ?thesis
    proof cases
      case now
      have p: "is_present (food_sources w ! j0)"
        and r: "in_reach (life_forms w ! i) (food_sources w ! j0)"
        using now(1) by (simp_all add: consumes_def)
      have "\<not> is_present (food_sources ?w' ! j0)"
        using feed_pair_marks [OF True r] .
      moreover have j': "j0 < length (food_sources ?w')"
        using feeds_to_food_length [OF ft] True by simp
      ultimately have "\<not> is_present (food_sources ?F ! j0)"
        using feeds_to_absent [OF ftF] by blast
      moreover have "j0 < length (food_sources ?F)"
        using feeds_to_food_length [OF ftF] j' by simp
      moreover have "in_reach (life_forms w ! i) (food_sources ?F ! j0)"
        using feeds_to_item_reach [OF ftwF True] r by simp
      ultimately show ?thesis unfolding F using now(2) p by simp
    next
      case later
      note ih = "1.IH" [OF True il later]
      have "in_reach (life_forms w ! i) (food_sources ?F ! snd e)"
        using ih feeds_to_agent_reach [OF ft "1.prems"(1)] by simp
      moreover have "is_present (food_sources w ! snd e)" if "snd e < length (food_sources w)"
      proof -
        have "snd e < length (food_sources ?w')"
          using feeds_to_food_length [OF ft] that by simp
        then have "is_present (food_sources ?w' ! snd e)" using ih by simp
        then show ?thesis using feeds_to_present [OF ft that] by simp
      qed
      ultimately show ?thesis unfolding F using ih by simp
    qed
  next
    case False
    then show ?thesis using "1.prems"(2) by (simp add: feed_inner_log_stop)
  qed
qed

lemma feed_inner_log_distinct:
  assumes "i < length (life_forms w)"
  shows "distinct (map snd (feed_inner_log i j0 w))"
  using assms
proof (induction i j0 w rule: feed_inner.induct)
  case (1 i j0 w)
  show ?case
  proof (cases "j0 < length (food_sources w)")
    case True
    let ?w' = "feed_pair i j0 w"
    have il: "i < length (life_forms ?w')" using "1.prems" by simp
    have "j0 \<notin> snd ` set (feed_inner_log i (j0 + 1) ?w')"
      using feed_inner_log_events [OF il, of _ "j0 + 1"] by fastforce
    then show ?thesis
      using "1.IH" [OF True il] by (simp add: feed_inner_log_step [OF True])
  next
    case False
    then show ?thesis by (simp add: feed_inner_log_stop)
  qed
qed

text \<open>The same for the whole pass, and no item is logged twice.\<close>

lemma feed_outer_log_events:
  assumes "e \<in> set (feed_outer_log i0 w)"
  shows "i0 \<le> fst e \<and> fst e < length (life_forms w) \<and>
         snd e < length (food_sources (feed_outer i0 w)) \<and>
         \<not> is_present (food_sources (feed_outer i0 w) ! snd e) \<and>
         in_reach (life_forms w ! fst e) (food_sources (feed_outer i0 w) ! snd e) \<and>
         (snd e < length (food_sources w) \<longrightarrow> is_present (food_sources w ! snd e))"
  using assms
proof (induction i0 w rule: feed_outer.induct)
  case (1 i0 w)
  show ?case
  proof (cases "i0 < length (life_forms w)")
    case True
    let ?w' = "feed_inner i0 0 w"
    let ?F = "feed_outer (i0 + 1) ?w'"
    have F: "feed_outer i0 w = ?F" by (rule feed_outer_step [OF True])
    have ft: "feeds_to w ?w'" by (rule feed_inner_feeds_to)
    have ftF: "feeds_to ?w' ?F" by (rule feed_outer_feeds_to)
    from "1.prems" consider (now) "e \<in> set (feed_inner_log i0 0 w)"
      | (later) "e \<in> set (feed_outer_log (i0 + 1) ?w')"
      by (auto simp: feed_outer_log_step [OF True])
    then show ?thesis
    proof cases
      case now
      note ev = feed_inner_log_events [OF True now]
      have j': "snd e < length (food_sources ?w')" using ev by simp
      have "\<not> is_present (food_sources ?F ! snd e)"
        using feeds_to_absent [OF ftF j'] ev by simp
      moreover have "snd e < length (food_sources ?F)"
        using feeds_to_food_length [OF ftF] j' by simp
      moreover have "in_reach (life_forms w ! fst e) (food_sources ?F ! snd e)"
        using feeds_to_item_reach [OF ftF j'] ev by simp
      ultimately show ?thesis unfolding F using ev True by simp
    next
      case later
      note ih = "1.IH" [OF True later]
      have k: "fst e < length (life_forms w)" using ih by simp
      have "in_reach (life_forms w ! fst e) (food_sources ?F ! snd e)"
        using ih feeds_to_agent_reach [OF ft k] by simp
      moreover have "is_present (food_sources w ! snd e)" if "snd e < length (food_sources w)"
      proof -
        have "snd e < length (food_sources ?w')"
          using feeds_to_food_length [OF ft] that by simp
        then have "is_present (food_sources ?w' ! snd e)" using ih by simp
        then show ?thesis using feeds_to_present [OF ft that] by simp
      qed
      ultimately show ?thesis unfolding F using ih k by simp
    qed
  next
    case False
    then show ?thesis using "1.prems" by (simp add: feed_outer_log_stop)
  qed
qed

lemma feed_outer_log_distinct: "distinct (map snd (feed_outer_log i0 w))"
proof (induction i0 w rule: feed_outer.induct)
  case (1 i0 w)
  show ?case
  proof (cases "i0 < length (life_forms w)")
    case True
    let ?w' = "feed_inner i0 0 w"
    have "snd a \<noteq> snd b"
      if a: "a \<in> set (feed_inner_log i0 0 w)" and b: "b \<in> set (feed_outer_log (i0 + 1) ?w')"
      for a b
    proof
      assume eq: "snd a = snd b"
      have "snd a < length (food_sources ?w') \<and> \<not> is_present (food_sources ?w' ! snd a)"
        using feed_inner_log_events [OF True a] by simp
      moreover have "snd b < length (food_sources ?w') \<longrightarrow> is_present (food_sources ?w' ! snd b)"
        using feed_outer_log_events [OF b] by simp
      ultimately show False using eq by simp
    qed
    then have "snd ` set (feed_inner_log i0 0 w) \<inter> snd ` set (feed_outer_log (i0 + 1) ?w') = {}"
      by auto
    then show ?thesis
      using "1.IH" [OF True] feed_inner_log_distinct [OF True, of 0]
      by (simp add: feed_outer_log_step [OF True])
  next
    case False
    then show ?thesis by (simp add: feed_outer_log_stop)
  qed
qed

text \<open>A present item within reach is logged for the first life form that reaches it.\<close>

lemma feed_inner_log_member:
  assumes "j0 \<le> j" and "j < length (food_sources w)" and "i < length (life_forms w)"
    and "is_present (food_sources w ! j)"
    and "in_reach (life_forms w ! i) (food_sources w ! j)"
  shows "(i, j) \<in> set (feed_inner_log i j0 w)"
  using assms
proof (induction i j0 w rule: feed_inner.induct)
  case (1 i j0 w)
  let ?w' = "feed_pair i j0 w"
  have lt: "j0 < length (food_sources w)" using "1.prems" by simp
  have ft: "feeds_to w ?w'" by (rule feed_pair_feeds_to)
  have jl: "j < length (food_sources ?w')"
    using feeds_to_food_length [OF ft] "1.prems"(2) by simp
  have il: "i < length (life_forms ?w')" using "1.prems"(3) by simp
  show ?case
  proof (cases "j0 = j")
    case True
    then have "consumes i j0 w" using "1.prems"(4,5) by (simp add: consumes_def)
    then have "(i, j0) \<in> set (feed_inner_log i j0 w)"
      by (simp add: feed_inner_log_step [OF lt])
    then show ?thesis using True by simp
  next
    case False
    have "in_reach (life_forms ?w' ! i) (food_sources ?w' ! j)"
      using feeds_to_in_reach [OF ft "1.prems"(3,2)] "1.prems"(5) by simp
    moreover have "is_present (food_sources ?w' ! j)"
      using feed_pair_other_food [OF "1.prems"(2), of j0 i] False "1.prems"(4) by simp
    ultimately have "(i, j) \<in> set (feed_inner_log i (j0 + 1) ?w')"
      using "1.IH" [OF lt _ jl il] "1.prems"(1) False by simp
    then show ?thesis by (simp add: feed_inner_log_step [OF lt])
  qed
qed

lemma feed_outer_log_member:
  assumes "i0 \<le> c" and "c < length (life_forms w)" and "j < length (food_sources w)"
    and "is_present (food_sources w ! j)"
    and "in_reach (life_forms w ! c) (food_sources w ! j)"
    and "\<forall>k. i0 \<le> k \<and> k < c \<longrightarrow> \<not> in_reach (life_forms w ! k) (food_sources w ! j)"
  shows "(c, j) \<in> set (feed_outer_log i0 w)"
  using assms
proof (induction i0 w rule: feed_outer.induct)
  case (1 i0 w)
  let ?w' = "feed_inner i0 0 w"
  have lt: "i0 < length (life_forms w)" using "1.prems" by simp
  have ft: "feeds_to w ?w'" by (rule feed_inner_feeds_to)
  have jl: "j < length (food_sources ?w')"
    using feeds_to_food_length [OF ft] "1.prems"(3) by simp
  have cl: "c < length (life_forms ?w')" using "1.prems"(2) by simp
  show ?case
  proof (cases "i0 = c")
    case True
    have "(c, j) \<in> set (feed_inner_log c 0 w)"
      using feed_inner_log_member [of 0 j w c] "1.prems" by simp
    then have "(c, j) \<in> set (feed_inner_log i0 0 w)"
      using True by simp
    then show ?thesis by (simp add: feed_outer_log_step [OF lt])
  next
    case False
    have "\<not> in_reach (life_forms w ! i0) (food_sources w ! j)"
      using "1.prems"(1,6) False by simp
    then have pres: "is_present (food_sources ?w' ! j)"
      using feed_inner_spares [OF "1.prems"(3) lt "1.prems"(4)] by simp
    have reach: "in_reach (life_forms ?w' ! c) (food_sources ?w' ! j)"
      using feeds_to_in_reach [OF ft "1.prems"(2,3)] "1.prems"(5) by simp
    have others: "\<forall>k. i0 + 1 \<le> k \<and> k < c \<longrightarrow>
        \<not> in_reach (life_forms ?w' ! k) (food_sources ?w' ! j)"
    proof (intro allI impI)
      fix k assume h: "i0 + 1 \<le> k \<and> k < c"
      then have "k < length (life_forms w)" using "1.prems"(2) by simp
      then show "\<not> in_reach (life_forms ?w' ! k) (food_sources ?w' ! j)"
        using feeds_to_in_reach [OF ft _ "1.prems"(3), of k] "1.prems"(6) h by simp
    qed
    have "(c, j) \<in> set (feed_outer_log (i0 + 1) ?w')"
      using "1.IH" [OF lt _ cl jl pres reach others] "1.prems"(1) False by simp
    then show ?thesis by (simp add: feed_outer_log_step [OF lt])
  qed
qed

text \<open>Conversely, an item that is flagged absent after the loops was absent before them
  or is in the log: the loops clear no flag outside the consuming branch.\<close>

lemma feed_pair_flag:
  assumes "j < length (food_sources w)"
    and "j' < length (food_sources (feed_pair i j w))"
    and "\<not> is_present (food_sources (feed_pair i j w) ! j')"
  shows "(j' < length (food_sources w) \<and> \<not> is_present (food_sources w ! j')) \<or>
         (consumes i j w \<and> j' = j)"
proof (cases rule: feed_pair_cases [of w j i])
  case skip
  then show ?thesis using assms by simp
next
  case (eat extra g')
  have c: "consumes i j w" using eat(1,2) by (simp add: consumes_def)
  show ?thesis
  proof (cases "j' < length (food_sources w)")
    case True
    then show ?thesis
      using assms(3) c unfolding eat(3) by (cases "j' = j") (simp_all add: nth_append)
  next
    case False
    then have "(food_sources (feed_pair i j w)) ! j' \<in> set extra"
      using assms(2) unfolding eat(3) by (simp add: nth_append)
    then show ?thesis using eat(6) assms(3) by blast
  qed
qed

lemma feed_inner_log_complete:
  assumes "j' < length (food_sources (feed_inner i j0 w))"
    and "\<not> is_present (food_sources (feed_inner i j0 w) ! j')"
  shows "(j' < length (food_sources w) \<and> \<not> is_present (food_sources w ! j')) \<or>
         (i, j') \<in> set (feed_inner_log i j0 w)"
  using assms
proof (induction i j0 w rule: feed_inner.induct)
  case (1 i j0 w)
  show ?case
  proof (cases "j0 < length (food_sources w)")
    case True
    let ?w' = "feed_pair i j0 w"
    have F: "feed_inner i j0 w = feed_inner i (j0 + 1) ?w'" by (rule feed_inner_step [OF True])
    from "1.IH" [OF True] "1.prems" consider
        (before) "j' < length (food_sources ?w')" "\<not> is_present (food_sources ?w' ! j')"
      | (later) "(i, j') \<in> set (feed_inner_log i (j0 + 1) ?w')"
      unfolding F by blast
    then show ?thesis
    proof cases
      case before
      then show ?thesis
        using feed_pair_flag [OF True before] by (auto simp: feed_inner_log_step [OF True])
    next
      case later
      then show ?thesis by (simp add: feed_inner_log_step [OF True])
    qed
  next
    case False
    then show ?thesis using "1.prems" by (simp add: feed_inner_stop)
  qed
qed

lemma feed_outer_log_complete:
  assumes "j' < length (food_sources (feed_outer i0 w))"
    and "\<not> is_present (food_sources (feed_outer i0 w) ! j')"
  shows "(j' < length (food_sources w) \<and> \<not> is_present (food_sources w ! j')) \<or>
         j' \<in> snd ` set (feed_outer_log i0 w)"
  using assms
proof (induction i0 w rule: feed_outer.induct)
  case (1 i0 w)
  show ?case
  proof (cases "i0 < length (life_forms w)")
    case True
    let ?w' = "feed_inner i0 0 w"
    have F: "feed_outer i0 w = feed_outer (i0 + 1) ?w'" by (rule feed_outer_step [OF True])
    from "1.IH" [OF True] "1.prems" consider
        (before) "j' < length (food_sources ?w')" "\<not> is_present (food_sources ?w' ! j')"
      | (later) "j' \<in> snd ` set (feed_outer_log (i0 + 1) ?w')"
      unfolding F by blast
    then show ?thesis
    proof cases
      case before
      then show ?thesis
        using feed_inner_log_complete [OF before]
        by (force simp: feed_outer_log_step [OF True])
    next
      case later
      then show ?thesis by (auto simp: feed_outer_log_step [OF True])
    qed
  next
    case False
    then show ?thesis using "1.prems" by (simp add: feed_outer_stop)
  qed
qed

text \<open>A life form credited with a single item holds one portion.\<close>

lemma portions_member: "(k, j) \<in> set evs \<Longrightarrow> 1 \<le> portions k evs"
proof (induction evs)
  case Nil
  then show ?case by simp
next
  case (Cons e evs)
  show ?case
  proof (cases "e = (k, j)")
    case True
    then show ?thesis by simp
  next
    case False
    then have "(k, j) \<in> set evs" using Cons.prems by simp
    then have "1 \<le> portions k evs" by (rule Cons.IH)
    then show ?thesis by simp
  qed
qed

lemma portions_single:
  assumes "distinct (map snd evs)" and "(k, j) \<in> set evs"
    and "\<forall>j'. (k, j') \<in> set evs \<longrightarrow> j' = j"
  shows "portions k evs = 1"
  using assms
proof (induction evs)
  case Nil
  then show ?case by simp
next
  case (Cons e evs)
  have d: "distinct (map snd evs)" and n: "snd e \<notin> snd ` set evs"
    using Cons.prems(1) by simp_all
  show ?case
  proof (cases "e = (k, j)")
    case True
    have "portions k evs = 0"
    proof (rule ccontr)
      assume "portions k evs \<noteq> 0"
      then have "filter (\<lambda>e. fst e = k) evs \<noteq> []" by (simp add: portions_def)
      then obtain e' where e': "e' \<in> set evs" "fst e' = k"
        by (metis (mono_tags, lifting) filter_False)
      then have "(k, snd e') \<in> set evs" by (metis prod.collapse)
      then have "snd e' = j" using Cons.prems(3) by simp
      then have "j \<in> snd ` set evs" using e'(1) by force
      then show False using n True by simp
    qed
    then show ?thesis using True by simp
  next
    case False
    then have m: "(k, j) \<in> set evs" using Cons.prems(2) by simp
    have "fst e \<noteq> k"
    proof
      assume "fst e = k"
      then have "e = (k, snd e)" by (metis prod.collapse)
      then have "snd e = j" using Cons.prems(3) by (metis list.set_intros(1))
      moreover have "snd (k, j) \<in> snd ` set evs" using m by (rule imageI)
      ultimately show False using n by simp
    qed
    moreover have "portions k evs = 1"
      using Cons.IH [OF d m] Cons.prems(3) by simp
    ultimately show ?thesis by simp
  qed
qed

lemma distinct_snd_unique:
  assumes "distinct (map snd evs)" and "(a, j) \<in> set evs" and "(b, j) \<in> set evs"
  shows "a = b"
  using assms
proof (induction evs)
  case Nil
  then show ?case by simp
next
  case (Cons e evs)
  have n: "snd e \<notin> snd ` set evs" and d: "distinct (map snd evs)"
    using Cons.prems(1) by simp_all
  have in_tail: "snd e \<noteq> j" if "(c, j) \<in> set evs" for c
  proof
    assume "snd e = j"
    moreover have "snd (c, j) \<in> snd ` set evs" using that by (rule imageI)
    ultimately show False using n by simp
  qed
  show ?case
  proof (cases "(a, j) \<in> set evs")
    case a: True
    show ?thesis
    proof (cases "(b, j) \<in> set evs")
      case True
      then show ?thesis using Cons.IH [OF d a] by simp
    next
      case False
      then have "e = (b, j)" using Cons.prems(3) by simp
      then show ?thesis using in_tail [OF a] by simp
    qed
  next
    case a: False
    then have ea: "e = (a, j)" using Cons.prems(2) by simp
    show ?thesis
    proof (cases "(b, j) \<in> set evs")
      case True
      then show ?thesis using in_tail [OF True] ea by simp
    next
      case False
      then have "e = (b, j)" using Cons.prems(3) by simp
      then show ?thesis using ea by simp
    qed
  qed
qed

text \<open>Who is credited with a present item: the first life form of the array within reach
  of it, and nobody else.\<close>

lemma feed_outer_log_first:
  assumes "j < length (food_sources u)" and "is_present (food_sources u ! j)"
  shows "(c, j) \<in> set (feed_outer_log 0 u) \<longleftrightarrow>
           c < length (life_forms u) \<and> in_reach (life_forms u ! c) (food_sources u ! j) \<and>
           (\<forall>k<c. \<not> in_reach (life_forms u ! k) (food_sources u ! j))"
proof
  assume m: "(c, j) \<in> set (feed_outer_log 0 u)"
  note ev = feed_outer_log_events [OF m]
  have cl: "c < length (life_forms u)" using ev by simp
  have r: "in_reach (life_forms u ! c) (food_sources u ! j)"
    using ev feeds_to_item_reach [OF feed_outer_feeds_to assms(1), of _ 0] by simp
  have "\<not> in_reach (life_forms u ! k) (food_sources u ! j)" if "k < c" for k
  proof
    assume rk: "in_reach (life_forms u ! k) (food_sources u ! j)"
    define c' where "c' = (LEAST k. in_reach (life_forms u ! k) (food_sources u ! j))"
    have rc': "in_reach (life_forms u ! c') (food_sources u ! j)"
      unfolding c'_def using rk by (rule LeastI)
    have le: "c' \<le> k" unfolding c'_def using rk by (rule Least_le)
    have least: "\<forall>k. 0 \<le> k \<and> k < c' \<longrightarrow> \<not> in_reach (life_forms u ! k) (food_sources u ! j)"
      unfolding c'_def using not_less_Least by blast
    have "c' < length (life_forms u)" using le that cl by simp
    then have "(c', j) \<in> set (feed_outer_log 0 u)"
      using feed_outer_log_member [OF _ _ assms(1,2) rc' least] by simp
    then have "c' = c"
      using distinct_snd_unique [OF feed_outer_log_distinct _ m] by simp
    then show False using le that by simp
  qed
  then show "c < length (life_forms u) \<and> in_reach (life_forms u ! c) (food_sources u ! j) \<and>
      (\<forall>k<c. \<not> in_reach (life_forms u ! k) (food_sources u ! j))"
    using cl r by blast
next
  assume h: "c < length (life_forms u) \<and> in_reach (life_forms u ! c) (food_sources u ! j) \<and>
      (\<forall>k<c. \<not> in_reach (life_forms u ! k) (food_sources u ! j))"
  then show "(c, j) \<in> set (feed_outer_log 0 u)"
    using feed_outer_log_member [of 0 c u j] assms by simp
qed

lemma feed_outer_log_some:
  assumes "i < length (life_forms u)" and "j < length (food_sources u)"
    and "is_present (food_sources u ! j)"
    and "in_reach (life_forms u ! i) (food_sources u ! j)"
  shows "\<exists>c\<le>i. (c, j) \<in> set (feed_outer_log 0 u)"
proof -
  define c where "c = (LEAST k. in_reach (life_forms u ! k) (food_sources u ! j))"
  have rc: "in_reach (life_forms u ! c) (food_sources u ! j)"
    unfolding c_def using assms(4) by (rule LeastI)
  have le: "c \<le> i" unfolding c_def using assms(4) by (rule Least_le)
  have least: "\<forall>k<c. \<not> in_reach (life_forms u ! k) (food_sources u ! j)"
    unfolding c_def using not_less_Least by blast
  have "c < length (life_forms u)" using le assms(1) by simp
  then have "(c, j) \<in> set (feed_outer_log 0 u)"
    using feed_outer_log_first [OF assms(2,3), of c] rc least by simp
  then show ?thesis using le by blast
qed

lemma duo_log: "feed_outer_log 0 (update_pass duo_world) = [(0, 0)]"
  unfolding duo_update
  by (simp add: food_at_def feed_pair_def in_reach_def consumes_def
      combined_radius_sq_def distance_sq_def spawn_food_def Let_def params
      feed_outer_log.simps feed_inner_log.simps feed_inner.simps)

subsection \<open>The trait of a lone offspring\<close>

lemma update_life_form_speed_factor:
  "lf_speed_factor (fst (update_life_form lf foods g)) = lf_speed_factor lf"
  by (simp add: update_life_form_def Let_def bounce_def)

lemma turnover_lone_parent_trait:
  assumes "life_forms w = [p]" and "lf_energy p = 1799 / 20"
  shows "lf_speed_factor (life_forms (turnover w) ! 1) =
           (if lf_speed_factor p + (fst (rand_unit (rand_src w)) - 1 / 2) * (4 / 10) < 1 / 2 then 1 / 2
            else if lf_speed_factor p + (fst (rand_unit (rand_src w)) - 1 / 2) * (4 / 10) > 2 then 2
            else lf_speed_factor p + (fst (rand_unit (rand_src w)) - 1 / 2) * (4 / 10))"
  using assms
  by (simp add: turnover_def turnover_loop.simps turnover_body_def spawn_life_form_def
      Let_def halved_def params)

lemma lone_update_rand: "rand_src (update_pass lone_world) = const_rand 0"
  by (simp add: lone_world_def life_form_at_def update_pass_def update_life_form_def steer_def
      Let_def)

subsection \<open>Turnover: the offspring in the loop\<close>







section \<open>The claims\<close>

subsection \<open>C1: Energy range after a tick\<close>




subsection \<open>C2: Reproduction of a lone life form\<close>

text \<open>C2, as amended. A life form with energy 90, alone in a world with no food, after one
  call of \<^verbatim>\<open>simulate_step\<close> with a successful allocation yields exactly two life forms: the
  parent, with energy \<open>(90 - ENERGY_LOSS_PER_STEP) / 2 = 44.975\<close>, its id, its speed factor and
  its colour, and one offspring with the same energy, within 5 units of the parent on each
  axis, with the parent's colour. The speed factor of the offspring is the parent's speed
  factor plus the mutation \<open>(u - 0.5) * 0.4\<close>, where \<open>u\<close> is the first draw after the update
  pass, clamped to \<open>[0.5, 2]\<close>; the mutation lies in \<open>[-0.2, 0.2]\<close>.\<close>

theorem lone_reproduction:
  assumes "life_forms w = [lf]" and "lf_energy lf = 90" and "food_sources w = []"
  shows "(let post = life_forms (simulate_step True w);
              mutation = (fst (rand_unit (rand_src (update_pass w))) - 1 / 2) * (4 / 10);
              mutated = lf_speed_factor lf + mutation
          in length post = 2 \<and>
          lf_energy (post ! 0) = (90 - ENERGY_LOSS_PER_STEP) / 2 \<and>
          lf_id (post ! 0) = lf_id lf \<and>
          lf_speed_factor (post ! 0) = lf_speed_factor lf \<and>
          lf_r (post ! 0) = lf_r lf \<and> lf_g (post ! 0) = lf_g lf \<and> lf_b (post ! 0) = lf_b lf \<and>
          lf_energy (post ! 1) = lf_energy (post ! 0) \<and>
          \<bar>lf_x (post ! 1) - lf_x (post ! 0)\<bar> \<le> 5 \<and>
          \<bar>lf_y (post ! 1) - lf_y (post ! 0)\<bar> \<le> 5 \<and>
          - (2 / 10) \<le> mutation \<and> mutation \<le> 2 / 10 \<and>
          lf_speed_factor (post ! 1)
            = (if mutated < 1 / 2 then 1 / 2 else if mutated > 2 then 2 else mutated) \<and>
          1 / 2 \<le> lf_speed_factor (post ! 1) \<and> lf_speed_factor (post ! 1) \<le> 2 \<and>
          lf_r (post ! 1) = lf_r lf \<and> lf_g (post ! 1) = lf_g lf \<and> lf_b (post ! 1) = lf_b lf)"
proof -
  let ?p = "fst (update_life_form lf [] (rand_src w))"
  let ?u = "update_pass w"
  let ?m = "(fst (rand_unit (rand_src ?u)) - 1 / 2) * (4 / 10)"
  have lu: "life_forms ?u = [?p]" and fu: "food_sources ?u = []"
    using assms by (simp_all add: update_pass_def Let_def)
  have ep: "lf_energy ?p = 1799 / 20"
    using assms(2) by (simp add: update_life_form_energy params)
  have step: "simulate_step True w = turnover ?u"
    using fu by (simp add: simulate_step_def Let_def handle_interactions_no_food)
  obtain c where c: "life_forms (turnover ?u) = [halved ?p, c]" "lf_energy c = lf_energy ?p / 2"
      "\<bar>lf_x c - lf_x ?p\<bar> \<le> 5" "\<bar>lf_y c - lf_y ?p\<bar> \<le> 5"
      "1 / 2 \<le> lf_speed_factor c" "lf_speed_factor c \<le> 2"
      "lf_r c = lf_r ?p" "lf_g c = lf_g ?p" "lf_b c = lf_b ?p"
    using turnover_lone_parent [OF lu ep] by blast
  have trait: "lf_speed_factor c =
      (if lf_speed_factor lf + ?m < 1 / 2 then 1 / 2
       else if lf_speed_factor lf + ?m > 2 then 2 else lf_speed_factor lf + ?m)"
    using turnover_lone_parent_trait [OF lu ep] unfolding c(1)
    by (simp add: update_life_form_speed_factor)
  have range: "- (2 / 10) \<le> ?m \<and> ?m \<le> 2 / 10"
    using rand_unit_bounds [of "rand_src ?u"] by simp
  show ?thesis
    unfolding Let_def step c(1)
    using c(2-) ep trait range by (simp add: halved_def params update_life_form_speed_factor)
qed

theorem lone_reproduction_witness:
  "life_forms lone_world = [life_form_at 100 100 90 0] \<and>
   lf_energy (life_form_at 100 100 90 0) = 90 \<and> food_sources lone_world = [] \<and>
   length (life_forms (simulate_step True lone_world)) = 2 \<and>
   lf_energy (life_forms (simulate_step True lone_world) ! 0) = (90 - ENERGY_LOSS_PER_STEP) / 2 \<and>
   lf_energy (life_forms (simulate_step True lone_world) ! 1) = (90 - ENERGY_LOSS_PER_STEP) / 2 \<and>
   lf_speed_factor (life_form_at 100 100 90 0) = 1 \<and>
   lf_speed_factor (life_forms (simulate_step True lone_world) ! 1) = 4 / 5"
proof -
  have a: "life_forms lone_world = [life_form_at 100 100 90 0]"
    and b: "lf_energy (life_form_at 100 100 90 0) = 90"
    and c: "food_sources lone_world = []"
    and d: "lf_speed_factor (life_form_at 100 100 90 0) = 1"
    by (simp_all add: lone_world_def life_form_at_def)
  note t = lone_reproduction [OF a b c, unfolded Let_def lone_update_rand d]
  have "lf_speed_factor (life_forms (simulate_step True lone_world) ! 1) = 4 / 5"
    using t by simp
  then show ?thesis
    using t a b c d by simp
qed

theorem lone_reproduction_energy_counterexample:
  "map lf_energy (life_forms (simulate_step True lone_world)) = [1799 / 40, 1799 / 40]"
proof -
  have "handle_interactions (update_pass lone_world)
      = \<lparr> life_forms = [life_form_at 100 100 (1799 / 20) 0\<lparr> lf_vx := - (3 / 4), lf_vy := - (3 / 4) \<rparr>],
          food_sources = [], rand_src = const_rand 0 \<rparr>"
    by (simp add: lone_world_def life_form_at_def step_defs params feed_outer.simps feed_inner.simps)
  then show ?thesis
    by (simp add: simulate_step_def turnover_def)
       (simp add: life_form_at_def turnover_body_def spawn_life_form_def Let_def params
          turnover_loop.simps)
qed

subsection \<open>C3: Identifiers\<close>

text \<open>C3. Ids are not unique: \<^verbatim>\<open>spawn_life_form\<close> uses the current count as the id, and the
  count drops when a life form dies. In \<open>reuse_world\<close> the life form with id 1 dies in the
  first tick while ids 2 and 3 are given out; in the second tick the count is 3, so the
  next offspring gets id 3 again although the holder of id 3 is alive.\<close>

theorem id_reused_after_death:
  "map lf_id (life_forms (simulate_step True (simulate_step True reuse_world))) = [0, 2, 3, 3]"
  unfolding simulate_step_alloc_ok [of "simulate_step True reuse_world"] reuse_second_update
  by (simp add: handle_interactions_no_food turnover_def turnover_body_def spawn_life_form_def
      Let_def params turnover_loop.simps)

subsection \<open>C4: Capacity\<close>

text \<open>C4. In every reachable state, after \<^verbatim>\<open>simulate_step\<close> the life-form count is at most
  \<open>MAX_LIFE_FORMS\<close> and the food count at most \<open>MAX_FOOD_SOURCES\<close>, whether or not the
  allocation succeeded; and the population grows only by reproduction: when no life form
  reaches \<open>REPRODUCTION_THRESHOLD\<close> after the interaction pass, the count does not
  increase.\<close>

theorem capacity_invariant:
  assumes "reachable w"
  shows "length (life_forms (simulate_step alloc_ok w)) \<le> MAX_LIFE_FORMS \<and>
         length (food_sources (simulate_step alloc_ok w)) \<le> MAX_FOOD_SOURCES \<and>
         ((\<forall>lf\<in>set (life_forms (handle_interactions (update_pass w))).
              lf_energy lf < REPRODUCTION_THRESHOLD) \<longrightarrow>
            length (life_forms (simulate_step alloc_ok w)) \<le> length (life_forms w))"
proof -
  have b: "length (life_forms w) \<le> MAX_LIFE_FORMS" "length (food_sources w) \<le> MAX_FOOD_SOURCES"
    using reachable_bounds [OF assms] by simp_all
  have "reachable (simulate_step alloc_ok w)" using assms by (rule reachable_step)
  then have c: "length (life_forms (simulate_step alloc_ok w)) \<le> MAX_LIFE_FORMS"
      "length (food_sources (simulate_step alloc_ok w)) \<le> MAX_FOOD_SOURCES"
    using reachable_bounds by simp_all
  have "length (life_forms (simulate_step alloc_ok w)) \<le> length (life_forms w)"
    if "\<forall>lf\<in>set (life_forms (handle_interactions (update_pass w))).
          lf_energy lf < REPRODUCTION_THRESHOLD"
  proof (cases alloc_ok)
    case True
    have "length (life_forms (handle_interactions (update_pass w))) \<le> MAX_LIFE_FORMS"
      using b by simp
    from turnover_no_growth [OF this that] True show ?thesis
      by (simp add: simulate_step_def Let_def)
  next
    case False
    then show ?thesis by (simp add: simulate_step_def Let_def)
  qed
  with c show ?thesis by blast
qed

theorem capacity_invariant_witness:
  "reachable (initialize_simulation (const_rand 0)) \<and>
   length (life_forms (simulate_step True (initialize_simulation (const_rand 0)))) \<le> MAX_LIFE_FORMS \<and>
   length (food_sources (simulate_step True (initialize_simulation (const_rand 0)))) \<le> MAX_FOOD_SOURCES \<and>
   length (life_forms (simulate_step True (initialize_simulation (const_rand 0))))
     \<le> length (life_forms (initialize_simulation (const_rand 0)))"
proof -
  let ?w = "initialize_simulation (const_rand 0)"
  have r: "reachable ?w" by (rule reachable_init)
  have upd: "lf_x a = 8 \<and> lf_y a = 8 \<and> lf_energy a = 999 / 20"
    if "a \<in> set (life_forms (update_pass ?w))" for a
  proof -
    from that obtain lf g' where "lf \<in> set (life_forms ?w)"
      and "a = fst (update_life_form lf (food_sources ?w) g')"
      using update_all_elem [of a "life_forms ?w" "food_sources ?w" "rand_src ?w"]
      by (auto simp: update_pass_def Let_def)
    then show ?thesis using update_corner_life_form initialize_simulation_corner by blast
  qed
  have far: "\<forall>a\<in>set (life_forms (update_pass ?w)). \<forall>f\<in>set (food_sources (update_pass ?w)).
      is_present f \<longrightarrow> \<not> in_reach a f"
    using upd corner_out_of_reach initialize_simulation_corner by auto
  have "life_forms (handle_interactions (update_pass ?w)) = life_forms (update_pass ?w)"
    using feed_outer_no_reach [OF far, of 0] by simp
  moreover have "lf_energy a < REPRODUCTION_THRESHOLD"
    if "a \<in> set (life_forms (update_pass ?w))" for a
    using upd [OF that] by (simp add: REPRODUCTION_THRESHOLD_def)
  ultimately have calm: "\<forall>lf\<in>set (life_forms (handle_interactions (update_pass ?w))).
      lf_energy lf < REPRODUCTION_THRESHOLD"
    by simp
  show ?thesis using capacity_invariant [OF r, of True] r calm by blast
qed

subsection \<open>C5: Consumption\<close>

text \<open>C5, as amended. Let a life form \<open>i\<close> and a present food item \<open>j\<close> be within reach of each
  other when the interaction pass runs. Then the item is flagged absent by the feeding
  loops and the compaction removes every flagged item, so the item is not in the food
  collection after the tick. The item is credited once, to the first life form of the array
  within reach of it, and to no other: in the consumption log of the pass no item occurs
  twice, the entries for item \<open>j\<close> are exactly those of the first life form within reach,
  every entry is an item that was present, within reach and is flagged afterwards, and every
  item flagged by the pass is in the log. After the interaction pass the energy of every
  life form is its post-updater value plus \<open>ENERGY_GAIN_FROM_FOOD\<close> for each item the log
  credits to it. So if no life form before \<open>i\<close> is within reach of the item, \<open>i\<close> is credited
  with it, and if it is the only item \<open>i\<close> is credited with, the energy of \<open>i\<close> has increased
  by exactly \<open>ENERGY_GAIN_FROM_FOOD\<close>.\<close>

theorem consumption_removes_item:
  assumes "i < length (life_forms w)" and "j < length (food_sources w)"
    and "is_present (food_sources w ! j)"
    and "in_reach (life_forms (update_pass w) ! i) (food_sources w ! j)"
  shows "(let u = update_pass w;
              marked = food_sources (feed_outer 0 u);
              events = feed_outer_log 0 u;
              after = life_forms (handle_interactions u)
          in \<not> is_present (marked ! j) \<and>
             food_sources (simulate_step alloc_ok w) = filter is_present marked \<and>
             (\<forall>k<length (life_forms u).
                lf_energy (after ! k)
                  = lf_energy (life_forms u ! k)
                    + ENERGY_GAIN_FROM_FOOD * real (portions k events)) \<and>
             distinct (map snd events) \<and>
             (\<forall>e\<in>set events.
                fst e < length (life_forms u) \<and> snd e < length marked \<and>
                \<not> is_present (marked ! snd e) \<and>
                in_reach (life_forms u ! fst e) (marked ! snd e) \<and>
                (snd e < length (food_sources w) \<longrightarrow> is_present (food_sources w ! snd e))) \<and>
             (\<forall>j'<length marked. \<not> is_present (marked ! j') \<longrightarrow>
                (j' < length (food_sources w) \<and> \<not> is_present (food_sources w ! j')) \<or>
                j' \<in> snd ` set events) \<and>
             (\<forall>c. (c, j) \<in> set events \<longleftrightarrow>
                c < length (life_forms u) \<and> in_reach (life_forms u ! c) (food_sources w ! j) \<and>
                (\<forall>k<c. \<not> in_reach (life_forms u ! k) (food_sources w ! j))) \<and>
             (\<exists>c\<le>i. (c, j) \<in> set events) \<and>
             ((\<forall>k<i. \<not> in_reach (life_forms u ! k) (food_sources w ! j)) \<longrightarrow>
                (i, j) \<in> set events \<and> 1 \<le> portions i events \<and>
                ((\<forall>j'. (i, j') \<in> set events \<longrightarrow> j' = j) \<longrightarrow>
                   lf_energy (after ! i) = lf_energy (life_forms u ! i) + ENERGY_GAIN_FROM_FOOD)))"
proof -
  let ?u = "update_pass w"
  let ?marked = "food_sources (feed_outer 0 ?u)"
  let ?events = "feed_outer_log 0 ?u"
  let ?after = "life_forms (handle_interactions ?u)"
  have iu: "i < length (life_forms ?u)" and ju: "j < length (food_sources ?u)"
    and pu: "is_present (food_sources ?u ! j)"
    and ru: "in_reach (life_forms ?u ! i) (food_sources ?u ! j)"
    using assms by simp_all
  have gone: "\<not> is_present (?marked ! j)"
    using feed_outer_marks [OF _ iu ju ru, of 0] by simp
  have compact: "food_sources (simulate_step alloc_ok w) = filter is_present ?marked"
    by (simp add: simulate_step_food_sources handle_interactions_food)
  have energy: "\<forall>k<length (life_forms ?u).
      lf_energy (?after ! k)
        = lf_energy (life_forms ?u ! k) + ENERGY_GAIN_FROM_FOOD * real (portions k ?events)"
    using feed_outer_energy_exact [of _ ?u 0] by simp
  have once: "distinct (map snd ?events)" by (rule feed_outer_log_distinct)
  have legit: "\<forall>e\<in>set ?events.
      fst e < length (life_forms ?u) \<and> snd e < length ?marked \<and>
      \<not> is_present (?marked ! snd e) \<and>
      in_reach (life_forms ?u ! fst e) (?marked ! snd e) \<and>
      (snd e < length (food_sources w) \<longrightarrow> is_present (food_sources w ! snd e))"
  proof
    fix e assume "e \<in> set ?events"
    from feed_outer_log_events [OF this]
    show "fst e < length (life_forms ?u) \<and> snd e < length ?marked \<and>
      \<not> is_present (?marked ! snd e) \<and>
      in_reach (life_forms ?u ! fst e) (?marked ! snd e) \<and>
      (snd e < length (food_sources w) \<longrightarrow> is_present (food_sources w ! snd e))"
      by simp
  qed
  have complete: "\<forall>j'<length ?marked. \<not> is_present (?marked ! j') \<longrightarrow>
      (j' < length (food_sources w) \<and> \<not> is_present (food_sources w ! j')) \<or>
      j' \<in> snd ` set ?events"
    using feed_outer_log_complete [of _ 0 ?u] by simp
  have first: "\<forall>c. (c, j) \<in> set ?events \<longleftrightarrow>
      c < length (life_forms ?u) \<and> in_reach (life_forms ?u ! c) (food_sources w ! j) \<and>
      (\<forall>k<c. \<not> in_reach (life_forms ?u ! k) (food_sources w ! j))"
    using feed_outer_log_first [OF ju pu] by simp
  have some: "\<exists>c\<le>i. (c, j) \<in> set ?events"
    using feed_outer_log_some [OF iu ju pu ru] .
  have mine: "(i, j) \<in> set ?events \<and> 1 \<le> portions i ?events \<and>
      ((\<forall>j'. (i, j') \<in> set ?events \<longrightarrow> j' = j) \<longrightarrow>
         lf_energy (?after ! i) = lf_energy (life_forms ?u ! i) + ENERGY_GAIN_FROM_FOOD)"
    if nobody: "\<forall>k<i. \<not> in_reach (life_forms ?u ! k) (food_sources w ! j)"
  proof -
    have m: "(i, j) \<in> set ?events" using first iu assms(4) nobody by blast
    have "1 \<le> portions i ?events" using m by (rule portions_member)
    moreover have "lf_energy (?after ! i) = lf_energy (life_forms ?u ! i) + ENERGY_GAIN_FROM_FOOD"
      if "\<forall>j'. (i, j') \<in> set ?events \<longrightarrow> j' = j"
      using energy iu portions_single [OF once m that] by simp
    ultimately show ?thesis using m by blast
  qed
  show ?thesis
    unfolding Let_def using gone compact energy once legit complete first some mine by blast
qed

theorem consumption_removes_item_witness:
  "0 < length (life_forms duo_world) \<and> 0 < length (food_sources duo_world) \<and>
   is_present (food_sources duo_world ! 0) \<and>
   in_reach (life_forms (update_pass duo_world) ! 0) (food_sources duo_world ! 0) \<and>
   in_reach (life_forms (update_pass duo_world) ! 1) (food_sources duo_world ! 0) \<and>
   \<not> is_present (food_sources (feed_outer 0 (update_pass duo_world)) ! 0) \<and>
   food_sources (simulate_step True duo_world) = [] \<and>
   feed_outer_log 0 (update_pass duo_world) = [(0, 0)] \<and>
   portions 0 (feed_outer_log 0 (update_pass duo_world)) = 1 \<and>
   portions 1 (feed_outer_log 0 (update_pass duo_world)) = 0 \<and>
   lf_energy (life_forms (handle_interactions (update_pass duo_world)) ! 0)
     = lf_energy (life_forms (update_pass duo_world) ! 0) + ENERGY_GAIN_FROM_FOOD \<and>
   lf_energy (life_forms (handle_interactions (update_pass duo_world)) ! 1)
     = lf_energy (life_forms (update_pass duo_world) ! 1)"
proof -
  have a: "0 < length (life_forms duo_world)" and b: "0 < length (food_sources duo_world)"
    and c: "is_present (food_sources duo_world ! 0)"
    by (simp_all add: duo_world_def food_at_def)
  have d: "in_reach (life_forms (update_pass duo_world) ! 0) (food_sources duo_world ! 0)"
    and d': "in_reach (life_forms (update_pass duo_world) ! 1) (food_sources duo_world ! 0)"
    by (simp_all add: duo_update)
       (simp_all add: duo_world_def food_at_def in_reach_def distance_sq_def combined_radius_sq_def
          Let_def params)
  have e: "food_sources (simulate_step True duo_world) = []"
    by (simp add: duo_step duo_interactions)
  have f: "portions 0 (feed_outer_log 0 (update_pass duo_world)) = 1"
    and g: "portions 1 (feed_outer_log 0 (update_pass duo_world)) = 0"
    by (simp_all add: duo_log)
  note t = consumption_removes_item [OF a b c d, of True, unfolded Let_def]
  have gone: "\<not> is_present (food_sources (feed_outer 0 (update_pass duo_world)) ! 0)"
    using t by blast
  have en: "\<forall>k<length (life_forms (update_pass duo_world)).
      lf_energy (life_forms (handle_interactions (update_pass duo_world)) ! k)
        = lf_energy (life_forms (update_pass duo_world) ! k)
          + ENERGY_GAIN_FROM_FOOD * real (portions k (feed_outer_log 0 (update_pass duo_world)))"
    using t by blast
  have l0: "0 < length (life_forms (update_pass duo_world))"
    and l1: "1 < length (life_forms (update_pass duo_world))"
    by (simp_all add: duo_world_def)
  have "lf_energy (life_forms (handle_interactions (update_pass duo_world)) ! 0)
     = lf_energy (life_forms (update_pass duo_world) ! 0)
       + ENERGY_GAIN_FROM_FOOD * real (portions 0 (feed_outer_log 0 (update_pass duo_world)))"
    using en l0 by blast
  then have e0: "lf_energy (life_forms (handle_interactions (update_pass duo_world)) ! 0)
     = lf_energy (life_forms (update_pass duo_world) ! 0) + ENERGY_GAIN_FROM_FOOD"
    unfolding f by simp
  have "lf_energy (life_forms (handle_interactions (update_pass duo_world)) ! 1)
     = lf_energy (life_forms (update_pass duo_world) ! 1)
       + ENERGY_GAIN_FROM_FOOD * real (portions 1 (feed_outer_log 0 (update_pass duo_world)))"
    using en l1 by blast
  then have e1: "lf_energy (life_forms (handle_interactions (update_pass duo_world)) ! 1)
     = lf_energy (life_forms (update_pass duo_world) ! 1)"
    unfolding g by simp
  show ?thesis using a b c d d' e f g gone e0 e1 duo_log by blast
qed

theorem consumption_second_agent_counterexample:
  "is_present (food_sources (update_pass duo_world) ! 0) \<and>
   in_reach (life_forms (update_pass duo_world) ! 1) (food_sources (update_pass duo_world) ! 0) \<and>
   lf_energy (life_forms (update_pass duo_world) ! 1) = 999 / 20 \<and>
   lf_energy (life_forms (simulate_step True duo_world) ! 1) = 999 / 20 \<and>
   food_sources (simulate_step True duo_world) = []"
proof -
  have "is_present (food_sources (update_pass duo_world) ! 0) \<and>
      in_reach (life_forms (update_pass duo_world) ! 1) (food_sources (update_pass duo_world) ! 0) \<and>
      lf_energy (life_forms (update_pass duo_world) ! 1) = 999 / 20"
    unfolding duo_update
    by (simp add: food_at_def in_reach_def distance_sq_def combined_radius_sq_def Let_def params)
  moreover have "lf_energy (life_forms (simulate_step True duo_world) ! 1) = 999 / 20 \<and>
      food_sources (simulate_step True duo_world) = []"
    unfolding duo_step duo_interactions by simp
  ultimately show ?thesis by blast
qed

subsection \<open>C6: Boundary reflection\<close>




subsection \<open>C7: Allocation failure\<close>

text \<open>C7. When the allocation of the scratch buffer fails, \<^verbatim>\<open>simulate_step\<close> returns the
  world as the interaction pass left it: the turnover pass has touched neither the
  life-form collection nor its count, which is still the count before the tick, with the
  same ids in the same order.\<close>

theorem allocation_failure_keeps_generation:
  "simulate_step False w = handle_interactions (update_pass w) \<and>
   length (life_forms (simulate_step False w)) = length (life_forms w) \<and>
   map lf_id (life_forms (simulate_step False w)) = map lf_id (life_forms w)"
  by (simp add: simulate_step_def Let_def)

subsection \<open>C8: Death\<close>

text \<open>C8, as amended. When the allocation succeeds (and the count is within capacity), no
  life form with energy \<open>\<le> 0\<close> is in the collection after \<^verbatim>\<open>simulate_step\<close>: the
  collection is exactly the entries of the old array with positive energy, in order, the
  old array being the agents as the interaction pass left them (each unchanged or with
  its energy halved, alive exactly when it was) followed by the offspring.\<close>

theorem death_invariant:
  assumes "length (life_forms w) \<le> MAX_LIFE_FORMS"
  shows "(let pre = life_forms (handle_interactions (update_pass w));
              old = life_forms (fst (turnover_loop 0 (handle_interactions (update_pass w)) []));
              post = life_forms (simulate_step True w)
          in (\<forall>lf\<in>set post. 0 < lf_energy lf) \<and>
             post = filter alive old \<and>
             length pre \<le> length old \<and>
             (\<forall>k<length pre. alive (old ! k) = alive (pre ! k) \<and>
                (old ! k = pre ! k \<or> old ! k = halved (pre ! k))))"
proof -
  let ?w2 = "handle_interactions (update_pass w)"
  let ?old = "life_forms (fst (turnover_loop 0 ?w2 []))"
  have post: "life_forms (simulate_step True w) = snd (turnover_loop 0 ?w2 [])"
    by (simp add: simulate_step_def Let_def)
  have len: "length (life_forms ?w2) \<le> MAX_LIFE_FORMS" using assms by simp
  have f: "snd (turnover_loop 0 ?w2 []) = filter alive ?old"
    using len by (intro turnover_loop_alive) simp_all
  have pos: "\<forall>lf\<in>set (snd (turnover_loop 0 ?w2 [])). 0 < lf_energy lf"
    unfolding f by (simp add: alive_def)
  have orig: "alive (?old ! k) = alive (life_forms ?w2 ! k) \<and>
      (?old ! k = life_forms ?w2 ! k \<or> ?old ! k = halved (life_forms ?w2 ! k))"
    if "k < length (life_forms ?w2)" for k
    using turnover_loop_originals [of 0 k ?w2 "[]"] that
    by (auto simp: alive_def halved_def)
  show ?thesis
    unfolding Let_def post
    using pos f orig turnover_loop_length_mono [of ?w2 0 "[]"] by blast
qed

theorem death_invariant_witness:
  "length (life_forms mixed_world) \<le> MAX_LIFE_FORMS \<and>
   life_forms (simulate_step True mixed_world)
     = filter alive (life_forms (fst (turnover_loop 0 (handle_interactions (update_pass mixed_world)) []))) \<and>
   map lf_energy (life_forms (handle_interactions (update_pass mixed_world))) = [0, 999 / 20] \<and>
   map lf_energy (life_forms (simulate_step True mixed_world)) = [999 / 20]"
proof -
  have l: "length (life_forms mixed_world) \<le> MAX_LIFE_FORMS"
    by (simp add: mixed_world_def MAX_LIFE_FORMS_def)
  have "life_forms (simulate_step True mixed_world)
      = filter alive (life_forms (fst (turnover_loop 0 (handle_interactions (update_pass mixed_world)) [])))"
    using death_invariant [OF l] unfolding Let_def by blast
  moreover have "map lf_energy (life_forms (handle_interactions (update_pass mixed_world))) = [0, 999 / 20]"
    by (simp add: mixed_interactions life_form_at_def)
  moreover have "map lf_energy (life_forms (simulate_step True mixed_world)) = [999 / 20]"
    by (simp add: mixed_step life_form_at_def)
  ultimately show ?thesis using l by blast
qed

theorem death_invariant_allocation_failure_counterexample:
  "map lf_energy (life_forms (simulate_step False mixed_world)) = [0, 999 / 20]"
  by (simp add: simulate_step_def mixed_interactions life_form_at_def)

subsection \<open>C9: Position after the updater\<close>

text \<open>C9. For every input position and velocity, after \<^verbatim>\<open>update_life_form\<close> the position
  satisfies \<open>LIFE_FORM_RADIUS \<le> x \<le> WINDOW_WIDTH - LIFE_FORM_RADIUS\<close> and
  \<open>LIFE_FORM_RADIUS \<le> y \<le> WINDOW_HEIGHT - LIFE_FORM_RADIUS\<close>, however far out of bounds the
  agent started and however large its velocity.\<close>

theorem update_life_form_position_in_window:
  "LIFE_FORM_RADIUS \<le> lf_x (fst (update_life_form lf foods g)) \<and>
   lf_x (fst (update_life_form lf foods g)) \<le> WINDOW_WIDTH - LIFE_FORM_RADIUS \<and>
   LIFE_FORM_RADIUS \<le> lf_y (fst (update_life_form lf foods g)) \<and>
   lf_y (fst (update_life_form lf foods g)) \<le> WINDOW_HEIGHT - LIFE_FORM_RADIUS"
  using bounce_x_range bounce_y_range by (simp add: update_life_form_def Let_def)

subsection \<open>C10: Offspring within the same tick\<close>




end
